theory Spec2Isabelle
  imports Main
begin

section \<open>The TRXO documentation gateway: model of the two browser scripts\<close>

text \<open>
  The repository's behavioural code is two scripts, \<^verbatim>\<open>docs/javascripts/gateway.js\<close> and
  \<^verbatim>\<open>docs/javascripts/email-validation.js\<close>. Both are event handlers over browser state:
  \<^verbatim>\<open>localStorage\<close>, \<^verbatim>\<open>window.location\<close>, a handful of DOM elements looked up by id or
  class, event-listener lists, mutation observers and timers. The model below makes that
  state an explicit record that every function takes and returns.

  JavaScript strings are modelled as \<^typ>\<open>string\<close>, one \<^typ>\<open>char\<close> per code unit, which
  covers every code unit below 256.
\<close>

subsection \<open>Strings\<close>

text \<open>\<^verbatim>\<open>s.startsWith(p)\<close>.\<close>

definition startsWith :: "string \<Rightarrow> string \<Rightarrow> bool" where
  "startsWith s p = (take (length p) s = p)"

text \<open>\<^verbatim>\<open>s.slice(0, -1)\<close>: everything but the last code unit; the empty string stays empty.\<close>

definition slice_0_m1 :: "string \<Rightarrow> string" where
  "slice_0_m1 s = take (length s - 1) s"

subsection \<open>\<^verbatim>\<open>localStorage\<close>\<close>

text \<open>
  The browser raises \<^verbatim>\<open>SecurityError\<close> on any access to \<^verbatim>\<open>localStorage\<close> when storage is
  disabled for the origin, and \<^verbatim>\<open>QuotaExceededError\<close> on a \<^verbatim>\<open>setItem\<close> that cannot be
  stored. The scripts contain no \<^verbatim>\<open>try\<close>/\<^verbatim>\<open>catch\<close>, so an exception ends the running
  handler; it is the \<open>Inl\<close> branch of every result.
\<close>

datatype dom_exception = SecurityError | QuotaExceededError

record storage =
  available :: bool
  quota_full :: bool
  items :: "string \<rightharpoonup> string"

definition getItem :: "storage \<Rightarrow> string \<Rightarrow> dom_exception + string option" where
  "getItem st k = (if available st then Inr (items st k) else Inl SecurityError)"

definition setItem :: "storage \<Rightarrow> string \<Rightarrow> string \<Rightarrow> dom_exception + storage" where
  "setItem st k v =
     (if \<not> available st then Inl SecurityError
      else if quota_full st then Inl QuotaExceededError
      else Inr (st\<lparr>items := (items st)(k \<mapsto> v)\<rparr>))"

subsection \<open>\<^verbatim>\<open>window.location\<close> and the session history\<close>

text \<open>
  \<open>pathname\<close> is the path of the current history entry, \<open>back_entries\<close> the entries
  behind it. \<^verbatim>\<open>location.replace(url)\<close> overwrites the current entry and leaves the
  entries behind it alone; it is the only navigation call in the scripts.
\<close>

record location =
  pathname :: string
  back_entries :: "string list"

definition location_replace :: "string \<Rightarrow> location \<Rightarrow> location" where
  "location_replace url loc = loc\<lparr>pathname := url\<rparr>"

subsection \<open>The document\<close>

text \<open>
  Each field is the result of one lookup the scripts make; \<open>None\<close> is the \<^verbatim>\<open>null\<close> a lookup
  returns when the element is not in the document.
\<close>

record success_el =
  sm_display :: string          \<comment> \<open>\<^verbatim>\<open>style.display\<close>\<close>
  sm_rendered :: bool           \<comment> \<open>\<^verbatim>\<open>offsetParent !== null\<close>\<close>

record label_el =
  innerText :: string
  lb_display :: string          \<comment> \<open>\<^verbatim>\<open>style.display\<close>\<close>

datatype event_type = Submit | Click | Input

text \<open>
  Listener identity. \<open>ValidateEmail\<close> and \<open>ValidateEmailClick\<close> are the two named functions
  of the validator script, one object each. The anonymous input handler is a new function
  object at every evaluation of its function expression; the number tells them apart.
  \<open>Transport\<close> is the submit handler of the third-party form library.
\<close>

datatype listener = ValidateEmail | ValidateEmailClick | ClearError nat | Transport

text \<open>A registration is (event type, listener, capture flag).\<close>

type_synonym registration = "event_type \<times> listener \<times> bool"

record input_el =
  in_value :: string                      \<comment> \<open>\<^verbatim>\<open>value\<close>\<close>
  in_border :: string                     \<comment> \<open>\<^verbatim>\<open>style.border\<close>\<close>
  in_listeners :: "registration list"     \<comment> \<open>its listener list\<close>

text \<open>
  The elements the scripts look up, the gateway container apart. The markup of the gateway
  page is the template's, so which of them lie inside \<^verbatim>\<open>.gateway-container\<close> is part of
  the document: \<open>wraps\<close> lists them. The submit button is looked up inside the form and
  goes where the form goes.
\<close>

datatype element = Header | Tabs | SuccessMessage | FormContainer | Form | EmailInput | EmailError

record container_el =
  innerHTML :: string
  wraps :: "element list"

text \<open>
  The form of the repository marks its fields \<^verbatim>\<open>required\<close> and has no \<^verbatim>\<open>novalidate\<close>, so
  the browser checks them before it fires \<^verbatim>\<open>submit\<close>. \<open>email_required\<close> is that attribute
  on \<^verbatim>\<open>#EMAIL\<close>; \<open>others_valid\<close> tells whether every other field of the form passes its own
  check (first and last name filled in).
\<close>

record document =
  md_header :: "string option"            \<comment> \<open>\<^verbatim>\<open>.md-header\<close>: its \<^verbatim>\<open>style.display\<close>\<close>
  md_tabs :: "string option"              \<comment> \<open>\<^verbatim>\<open>.md-tabs\<close>: its \<^verbatim>\<open>style.display\<close>\<close>
  success_message :: "success_el option"  \<comment> \<open>\<^verbatim>\<open>#success-message\<close>\<close>
  gateway_container :: "container_el option"  \<comment> \<open>\<^verbatim>\<open>.gateway-container\<close>\<close>
  sib_form_container :: "nat option"      \<comment> \<open>\<^verbatim>\<open>#sib-form-container\<close>: the node's identity\<close>
  sib_form :: "registration list option"  \<comment> \<open>\<^verbatim>\<open>#sib-form\<close>: its listener list\<close>
  submit_btn :: "registration list option"
    \<comment> \<open>\<^verbatim>\<open>button[type="submit"]\<close> inside the form: its listener list\<close>
  email_input :: "input_el option"        \<comment> \<open>\<^verbatim>\<open>#EMAIL\<close>\<close>
  email_error :: "label_el option"        \<comment> \<open>\<^verbatim>\<open>#email-error\<close>\<close>
  email_required :: bool
  others_valid :: bool

datatype timer_callback = RedirectToDashboard | InitEmailValidation

record world =
  localStorage :: storage
  loc :: location
  doc :: document
  observers :: "nat list"
    \<comment> \<open>one entry per mutation observer that is observing: the node it observes\<close>
  timers :: "(nat \<times> timer_callback) list"
    \<comment> \<open>pending \<^verbatim>\<open>setTimeout\<close> calls: delay in ms and callback\<close>
  next_fn :: nat
    \<comment> \<open>number of function objects created so far by the input-handler expression\<close>

subsection \<open>\<^verbatim>\<open>gateway.js\<close>\<close>

definition ACCESS_KEY :: string where
  "ACCESS_KEY = ''trxo_access_granted''"

definition GATEWAY_PATHS :: "string list" where
  "GATEWAY_PATHS = [''/trxo/'', ''/trxo/index.html'', ''/'', ''/index.html'']"

definition getDashboardPath :: "world \<Rightarrow> string" where
  "getDashboardPath w =
     (let path = pathname (loc w) in
      if startsWith path ''/trxo'' then ''/trxo/home/'' else ''/home/'')"

definition getGatewayPath :: "world \<Rightarrow> string" where
  "getGatewayPath w =
     (let path = pathname (loc w) in
      if startsWith path ''/trxo'' then ''/trxo/'' else ''/'')"

definition isGatewayPage :: "world \<Rightarrow> bool" where
  "isGatewayPage w =
     (let path = pathname (loc w) in
      list_ex (\<lambda>p. path = p \<or> path = slice_0_m1 p) GATEWAY_PATHS)"


text \<open>
  \<^verbatim>\<open>initFormObserver\<close>: a new observer is constructed at every call and starts observing
  when \<^verbatim>\<open>#sib-form-container\<close> exists. The function holds the observer in a local
  constant and calls \<^verbatim>\<open>disconnect\<close> nowhere. An observer that observes nothing is never
  notified and is left out of \<open>observers\<close>.
\<close>

definition initFormObserver :: "world \<Rightarrow> world" where
  "initFormObserver w =
     (case sib_form_container (doc w) of
        None \<Rightarrow> w
      | Some formContainer \<Rightarrow> w\<lparr>observers := observers w @ [formContainer]\<rparr>)"

text \<open>The two \<^verbatim>\<open>if (x) x.style.display = 'none'\<close> lines of \<^verbatim>\<open>enforceAccess\<close>.\<close>

definition hide_chrome :: "world \<Rightarrow> world" where
  "hide_chrome w =
     w\<lparr>doc := (doc w)\<lparr>md_header := map_option (\<lambda>_. ''none'') (md_header (doc w)),
                       md_tabs := map_option (\<lambda>_. ''none'') (md_tabs (doc w))\<rparr>\<rparr>"

text \<open>
  The read of the flag, \<^verbatim>\<open>localStorage.getItem(ACCESS_KEY) === 'true'\<close>: \<^verbatim>\<open>getItem\<close> gives
  \<^verbatim>\<open>null\<close> for a key that is not stored, and \<^verbatim>\<open>null === 'true'\<close> is false.
\<close>

definition read_access :: "world \<Rightarrow> dom_exception + bool" where
  "read_access w =
     (case getItem (localStorage w) ACCESS_KEY of
        Inl ex \<Rightarrow> Inl ex
      | Inr v \<Rightarrow> Inr (v = Some ''true''))"

definition enforceAccess :: "world \<Rightarrow> dom_exception + world" where
  "enforceAccess w =
     (case read_access w of
        Inl ex \<Rightarrow> Inl ex
      | Inr hasAccess \<Rightarrow>
          (let onGateway = isGatewayPage w
           in if hasAccess then
                (if onGateway
                 then Inr (w\<lparr>loc := location_replace (getDashboardPath w) (loc w)\<rparr>)
                 else Inr w)
              else
                (if \<not> onGateway
                 then Inr (w\<lparr>loc := location_replace (getGatewayPath w) (loc w)\<rparr>)
                 else Inr (hide_chrome (initFormObserver w)))))"

text \<open>The callback every observer is constructed with.\<close>

definition CONFIRMATION :: string where
  "CONFIRMATION = ''<h2>Success! Redirecting to documentation...</h2>''"

text \<open>The elements \<open>es\<close> leave the document: a later lookup of any of them gives \<^verbatim>\<open>null\<close>.\<close>

definition remove_elements :: "element list \<Rightarrow> document \<Rightarrow> document" where
  "remove_elements es d =
     d\<lparr>md_header := (if Header \<in> set es then None else md_header d),
       md_tabs := (if Tabs \<in> set es then None else md_tabs d),
       success_message := (if SuccessMessage \<in> set es then None else success_message d),
       sib_form_container := (if FormContainer \<in> set es then None else sib_form_container d),
       sib_form := (if Form \<in> set es then None else sib_form d),
       submit_btn := (if Form \<in> set es then None else submit_btn d),
       email_input := (if EmailInput \<in> set es then None else email_input d),
       email_error := (if EmailError \<in> set es then None else email_error d)\<rparr>"

text \<open>
  \<^verbatim>\<open>container.innerHTML = html\<close>: the new content takes the place of everything the
  container held, so the elements it wrapped are gone from the document.
\<close>

definition set_innerHTML :: "string \<Rightarrow> document \<Rightarrow> document" where
  "set_innerHTML html d =
     (case gateway_container d of
        None \<Rightarrow> d
      | Some container \<Rightarrow>
          remove_elements (wraps container)
            (d\<lparr>gateway_container := Some \<lparr>innerHTML = html, wraps = []\<rparr>\<rparr>))"

definition observer_callback :: "world \<Rightarrow> dom_exception + world" where
  "observer_callback w =
     (case success_message (doc w) of
        None \<Rightarrow> Inr w
      | Some successMsg \<Rightarrow>
          if sm_display successMsg \<noteq> ''none'' \<and> sm_rendered successMsg then
            (case setItem (localStorage w) ACCESS_KEY ''true'' of
               Inl ex \<Rightarrow> Inl ex
             | Inr st \<Rightarrow>
                 Inr (w\<lparr>localStorage := st,
                        doc := set_innerHTML CONFIRMATION (doc w),
                        timers := timers w @ [(1500, RedirectToDashboard)]\<rparr>))
          else Inr w)"

subsection \<open>\<^verbatim>\<open>email-validation.js\<close>\<close>

text \<open>
  \<^verbatim>\<open>String.prototype.trim\<close> removes white space and line terminators at both ends; below
  code unit 256 these are TAB, LF, VT, FF, CR, SP and NBSP.
\<close>

definition is_space :: "char \<Rightarrow> bool" where
  "is_space c = (of_char c \<in> {9, 10, 11, 12, 13, 32, 160 :: nat})"

definition trim :: "string \<Rightarrow> string" where
  "trim s = rev (dropWhile is_space (rev (dropWhile is_space s)))"

text \<open>
  \<^verbatim>\<open>String.prototype.toLowerCase\<close>: below code unit 256 the letters with a lower-case
  form are A to Z and U+00C0 to U+00DE without U+00D7, each 32 below its lower-case form.
\<close>

definition lower_char :: "char \<Rightarrow> char" where
  "lower_char c =
     (let n = (of_char c :: nat)
      in if (65 \<le> n \<and> n \<le> 90) \<or> (192 \<le> n \<and> n \<le> 222 \<and> n \<noteq> 215)
         then char_of (n + 32) else c)"

definition toLowerCase :: "string \<Rightarrow> string" where
  "toLowerCase s = map lower_char s"

text \<open>\<^verbatim>\<open>s.split(sep)\<close> for a one-character separator; \<open>acc\<close> is the current segment, reversed.\<close>

fun split_acc :: "char \<Rightarrow> string \<Rightarrow> string \<Rightarrow> string list" where
  "split_acc sep acc [] = [rev acc]"
| "split_acc sep acc (c # cs) =
     (if c = sep then rev acc # split_acc sep [] cs else split_acc sep (c # acc) cs)"

definition split :: "string \<Rightarrow> char \<Rightarrow> string list" where
  "split s sep = split_acc sep [] s"

definition blockedDomains :: "string list" where
  "blockedDomains = [''gmail.com'', ''yahoo.com'', ''hotmail.com'']"

definition DENIAL :: string where
  "DENIAL = ''Please use your business email address. Gmail, Yahoo and Hotmail are not allowed.''"

definition INVALID_BORDER :: string where
  "INVALID_BORDER = ''1px solid #ff4949''"

definition VALID_BORDER :: string where
  "VALID_BORDER = ''1px solid #13ce66''"

text \<open>
  \<^verbatim>\<open>processValidation\<close> returns its boolean together with the changed world.
  \<open>parts\<close> is never empty, so \<open>last parts\<close> is \<^verbatim>\<open>parts[parts.length - 1]\<close>.
\<close>

definition processValidation :: "world \<Rightarrow> bool \<times> world" where
  "processValidation w =
     (case email_input (doc w) of
        None \<Rightarrow> (True, w)
      | Some emailInput \<Rightarrow>
          (let errorLabel = email_error (doc w);
               emailValue = toLowerCase (trim (in_value emailInput));
               parts = split emailValue CHR ''@''
           in if length parts < 2 then (True, w)
              else
                (let domain = last parts
                 in if domain \<in> set blockedDomains then
                      (False,
                       w\<lparr>doc := (doc w)\<lparr>
                           email_error :=
                             map_option (\<lambda>l. l\<lparr>innerText := DENIAL, lb_display := ''block''\<rparr>)
                               errorLabel,
                           email_input := Some (emailInput\<lparr>in_border := INVALID_BORDER\<rparr>)\<rparr>\<rparr>)
                    else
                      (True,
                       w\<lparr>doc := (doc w)\<lparr>
                           email_error := map_option (\<lambda>l. l\<lparr>lb_display := ''none''\<rparr>) errorLabel,
                           email_input := Some (emailInput\<lparr>in_border := VALID_BORDER\<rparr>)\<rparr>\<rparr>))))"

text \<open>The two flags of an event object that the handlers set.\<close>

record event =
  defaultPrevented :: bool
  immediateStopped :: bool

definition fresh_event :: event where
  "fresh_event = \<lparr>defaultPrevented = False, immediateStopped = False\<rparr>"

definition validateEmail :: "event \<Rightarrow> world \<Rightarrow> event \<times> world" where
  "validateEmail e w =
     (case processValidation w of
        (ok, w') \<Rightarrow>
          if \<not> ok then (e\<lparr>defaultPrevented := True, immediateStopped := True\<rparr>, w')
          else (e, w'))"

definition validateEmailClick :: "event \<Rightarrow> world \<Rightarrow> event \<times> world" where
  "validateEmailClick e w =
     (case processValidation w of
        (ok, w') \<Rightarrow>
          if \<not> ok then (e\<lparr>defaultPrevented := True, immediateStopped := True\<rparr>, w')
          else (e, w'))"

text \<open>The anonymous \<^verbatim>\<open>input\<close> handler; \<^verbatim>\<open>this\<close> is \<^verbatim>\<open>#EMAIL\<close>.\<close>

definition clear_error :: "world \<Rightarrow> world" where
  "clear_error w =
     w\<lparr>doc := (doc w)\<lparr>
         email_error := map_option (\<lambda>l. l\<lparr>lb_display := ''none''\<rparr>) (email_error (doc w)),
         email_input := map_option (\<lambda>i. i\<lparr>in_border := VALID_BORDER\<rparr>) (email_input (doc w))\<rparr>\<rparr>"

text \<open>
  \<^verbatim>\<open>addEventListener\<close> appends unless the same (type, callback, capture) is registered
  already; \<^verbatim>\<open>removeEventListener\<close> removes that registration.
\<close>

definition addEventListener :: "registration list \<Rightarrow> registration \<Rightarrow> registration list" where
  "addEventListener regs r = (if r \<in> set regs then regs else regs @ [r])"

definition removeEventListener :: "registration list \<Rightarrow> registration \<Rightarrow> registration list" where
  "removeEventListener regs r = filter (\<lambda>x. x \<noteq> r) regs"

definition initEmailValidation :: "world \<Rightarrow> world" where
  "initEmailValidation w =
     (case sib_form (doc w) of
        None \<Rightarrow> w
      | Some form \<Rightarrow>
          (let form1 = removeEventListener form (Submit, ValidateEmail, True);
               form2 = addEventListener form1 (Submit, ValidateEmail, True);
               submitBtn =
                 map_option
                   (\<lambda>b. addEventListener
                          (removeEventListener b (Click, ValidateEmailClick, True))
                          (Click, ValidateEmailClick, True))
                   (submit_btn (doc w));
               d1 = (doc w)\<lparr>sib_form := Some form2, submit_btn := submitBtn\<rparr>
           in case email_input d1 of
                None \<Rightarrow> w\<lparr>doc := d1\<rparr>
              | Some emailInput \<Rightarrow>
                  w\<lparr>doc := d1\<lparr>email_input :=
                         Some (emailInput\<lparr>in_listeners :=
                                 addEventListener (in_listeners emailInput)
                                   (Input, ClearError (next_fn w), False)\<rparr>)\<rparr>,
                    next_fn := Suc (next_fn w)\<rparr>))"

subsection \<open>The browser: event dispatch, mutation notification, timers\<close>

text \<open>
  What a listener does when the browser invokes it. Nothing is known of the third-party
  handler but that it runs; it leaves the modelled state alone.
\<close>

fun invoke :: "listener \<Rightarrow> event \<Rightarrow> world \<Rightarrow> event \<times> world" where
  "invoke ValidateEmail e w = validateEmail e w"
| "invoke ValidateEmailClick e w = validateEmailClick e w"
| "invoke (ClearError n) e w = (e, clear_error w)"
| "invoke Transport e w = (e, w)"

text \<open>
  The listeners of a dispatch run in order until one has called
  \<^verbatim>\<open>stopImmediatePropagation\<close>. The result lists the listeners that ran, in order.
\<close>

fun run_listeners :: "listener list \<Rightarrow> event \<Rightarrow> world \<Rightarrow> listener list \<times> event \<times> world" where
  "run_listeners [] e w = ([], e, w)"
| "run_listeners (l # ls) e w =
     (if immediateStopped e then ([], e, w)
      else (case invoke l e w of
              (e1, w1) \<Rightarrow>
                (case run_listeners ls e1 w1 of
                   (fired, e2, w2) \<Rightarrow> (l # fired, e2, w2))))"

definition capturing :: "event_type \<Rightarrow> registration list \<Rightarrow> listener list" where
  "capturing ty regs = map (\<lambda>r. fst (snd r)) (filter (\<lambda>r. fst r = ty \<and> snd (snd r)) regs)"

definition bubbling :: "event_type \<Rightarrow> registration list \<Rightarrow> listener list" where
  "bubbling ty regs = map (\<lambda>r. fst (snd r)) (filter (\<lambda>r. fst r = ty \<and> \<not> snd (snd r)) regs)"

text \<open>
  On the event's target the DOM standard invokes the capturing listeners first and the
  others after them, each group in registration order.
\<close>

definition at_target :: "event_type \<Rightarrow> registration list \<Rightarrow> listener list" where
  "at_target ty regs = capturing ty regs @ bubbling ty regs"

text \<open>A \<^verbatim>\<open>submit\<close> event fired at \<^verbatim>\<open>#sib-form\<close>.\<close>

definition dispatch_submit :: "world \<Rightarrow> listener list \<times> event \<times> world" where
  "dispatch_submit w =
     (case sib_form (doc w) of
        None \<Rightarrow> ([], fresh_event, w)
      | Some form \<Rightarrow> run_listeners (at_target Submit form) fresh_event w)"

text \<open>
  A \<^verbatim>\<open>click\<close> event fired at the submit button. The button is a descendant of the form,
  so the form's capturing click listeners run before the button's listeners and its
  other click listeners after them.
\<close>

definition dispatch_click :: "world \<Rightarrow> listener list \<times> event \<times> world" where
  "dispatch_click w =
     (case submit_btn (doc w) of
        None \<Rightarrow> ([], fresh_event, w)
      | Some btn \<Rightarrow>
          (let form = (case sib_form (doc w) of None \<Rightarrow> [] | Some f \<Rightarrow> f)
           in run_listeners
                (capturing Click form @ at_target Click btn @ bubbling Click form)
                fresh_event w))"

text \<open>
  The browser's check of the form before it fires \<^verbatim>\<open>submit\<close>: a required field must
  not be empty. The value counts as it stands, not trimmed.
\<close>

definition satisfies_constraints :: "document \<Rightarrow> bool" where
  "satisfies_constraints d =
     (others_valid d
      \<and> (case email_input d of
            None \<Rightarrow> True
          | Some i \<Rightarrow> \<not> (email_required d \<and> in_value i = [])))"

text \<open>
  One submission by the user. \<open>BySubmitEvent\<close> is a submit event fired at the form, whatever
  led to it. \<open>ByButton\<close> is a click on the submit button, which is also what the Enter key
  in a field produces: the click event is dispatched; unless a listener prevented its
  default action the browser then checks the fields of the form, and only if they pass
  does it go on to fire \<^verbatim>\<open>submit\<close> at the form.
  The boolean of the result tells whether the browser itself then submits the form.
\<close>

datatype submission = BySubmitEvent | ByButton

fun user_submits :: "submission \<Rightarrow> world \<Rightarrow> listener list \<times> bool \<times> world" where
  "user_submits BySubmitEvent w =
     (case dispatch_submit w of (fired, e, w1) \<Rightarrow> (fired, \<not> defaultPrevented e, w1))"
| "user_submits ByButton w =
     (case dispatch_click w of
        (fired1, e1, w1) \<Rightarrow>
          if defaultPrevented e1 then (fired1, False, w1)
          else if \<not> satisfies_constraints (doc w1) then (fired1, False, w1)
          else (case dispatch_submit w1 of
                  (fired2, e2, w2) \<Rightarrow> (fired1 @ fired2, \<not> defaultPrevented e2, w2)))"

text \<open>How often the validation logic fired in a dispatch: once per run of either handler.\<close>

definition validations :: "listener list \<Rightarrow> nat" where
  "validations fired = length (filter (\<lambda>l. l = ValidateEmail \<or> l = ValidateEmailClick) fired)"

text \<open>An \<^verbatim>\<open>input\<close> event fired at \<^verbatim>\<open>#EMAIL\<close>.\<close>

definition dispatch_input :: "world \<Rightarrow> world" where
  "dispatch_input w =
     (case email_input (doc w) of
        None \<Rightarrow> w
      | Some i \<Rightarrow> snd (snd (run_listeners (at_target Input (in_listeners i)) fresh_event w)))"

text \<open>
  An uncaught exception ends the handler that raised it and nothing else: the page goes
  on in the state the handler left. Both handlers that can raise do so before their
  first write.
\<close>

definition handler :: "(world \<Rightarrow> dom_exception + world) \<Rightarrow> world \<Rightarrow> world" where
  "handler f w = (case f w of Inl ex \<Rightarrow> w | Inr w1 \<Rightarrow> w1)"

text \<open>A mutation under node \<open>n\<close> is reported to every observer that observes \<open>n\<close>.\<close>

definition notify :: "nat \<Rightarrow> world \<Rightarrow> world" where
  "notify n w = fold (\<lambda>_. handler observer_callback) (filter (\<lambda>t. t = n) (observers w)) w"

text \<open>
  The \<open>i\<close>-th pending timer expires: it leaves the list and its callback runs.
  \<open>RedirectToDashboard\<close> is the function passed to \<^verbatim>\<open>setTimeout\<close> in the observer callback.
\<close>

definition fire_timer :: "nat \<Rightarrow> world \<Rightarrow> world" where
  "fire_timer i w =
     (if i < length (timers w) then
        (let w1 = w\<lparr>timers := take i (timers w) @ drop (Suc i) (timers w)\<rparr>
         in case snd (timers w ! i) of
              RedirectToDashboard \<Rightarrow> w1\<lparr>loc := location_replace (getDashboardPath w1) (loc w1)\<rparr>
            | InitEmailValidation \<Rightarrow> initEmailValidation w1)
      else w)"

text \<open>
  The subscriber of \<^verbatim>\<open>document$\<close> in the validator script:
  \<^verbatim>\<open>setTimeout(initEmailValidation, 100)\<close>.
\<close>

definition schedule_init :: "world \<Rightarrow> world" where
  "schedule_init w = w\<lparr>timers := timers w @ [(100, InitEmailValidation)]\<rparr>"

text \<open>
  Everything that can happen in a page running the two scripts. \<open>Elsewhere f\<close> is any
  change made by something other than the scripts (the user typing, the form library
  showing its success panel, a soft navigation replacing the path and the markup);
  \<^verbatim>\<open>localStorage\<close> is not within its reach.
\<close>

datatype op =
    Navigation
  | Mutation nat
  | TimerExpires nat
  | EmailNavigation
  | Attach
  | UserSubmits submission
  | UserTypes
  | Elsewhere "world \<Rightarrow> world"

fun step :: "op \<Rightarrow> world \<Rightarrow> world" where
  "step Navigation w = handler enforceAccess w"
| "step (Mutation n) w = notify n w"
| "step (TimerExpires i) w = fire_timer i w"
| "step EmailNavigation w = schedule_init w"
| "step Attach w = initEmailValidation w"
| "step (UserSubmits how) w = snd (snd (user_submits how w))"
| "step UserTypes w = dispatch_input w"
| "step (Elsewhere f) w = (f w)\<lparr>localStorage := localStorage w\<rparr>"

definition run :: "op list \<Rightarrow> world \<Rightarrow> world" where
  "run ops w = fold step ops w"

text \<open>The flag is set: the store holds \<^verbatim>\<open>'true'\<close> under the key.\<close>

definition granted :: "world \<Rightarrow> bool" where
  "granted w = (items (localStorage w) ACCESS_KEY = Some ''true'')"

text \<open>
  The form library registering its submit handler on the form, by
  \<^verbatim>\<open>form.addEventListener('submit', handler)\<close>: not capturing.
\<close>

definition transport_registers :: "world \<Rightarrow> world" where
  "transport_registers w =
     w\<lparr>doc := (doc w)\<lparr>sib_form :=
            map_option (\<lambda>form. addEventListener form (Submit, Transport, False))
              (sib_form (doc w))\<rparr>\<rparr>"

text \<open>
  A listener list as an element has it before the validator script has run on it: the
  functions of the script are private to it, so every listener is a third party's.
\<close>

definition third_party :: "registration list \<Rightarrow> bool" where
  "third_party regs = list_all (\<lambda>r. fst (snd r) = Transport) regs"

text \<open>No capturing listener for \<open>ty\<close> in the list.\<close>

definition none_capturing :: "event_type \<Rightarrow> registration list \<Rightarrow> bool" where
  "none_capturing ty regs = list_all (\<lambda>r. \<not> (fst r = ty \<and> snd (snd r))) regs"

text \<open>The store after the one write the scripts make.\<close>

definition set_flag :: "storage \<Rightarrow> storage" where
  "set_flag st = st\<lparr>items := (items st)(ACCESS_KEY \<mapsto> ''true'')\<rparr>"

subsection \<open>Pages to evaluate on\<close>

text \<open>A document with none of the elements the scripts look up.\<close>

definition empty_document :: document where
  "empty_document =
     \<lparr>md_header = None, md_tabs = None, success_message = None, gateway_container = None,
      sib_form_container = None, sib_form = None, submit_btn = None,
      email_input = None, email_error = None,
      email_required = False, others_valid = True\<rparr>"

text \<open>
  The gateway page as the form library renders it: header and tabs shown, the success
  panel hidden, the form with the library's own submit listener, all fields required and
  empty. The gateway container wraps the form container and what is in it.
\<close>

definition gateway_document :: document where
  "gateway_document =
     \<lparr>md_header = Some '''', md_tabs = Some '''',
      success_message = Some \<lparr>sm_display = ''none'', sm_rendered = False\<rparr>,
      gateway_container =
        Some \<lparr>innerHTML = ''<form>'',
              wraps = [SuccessMessage, FormContainer, Form, EmailInput, EmailError]\<rparr>,
      sib_form_container = Some 1,
      sib_form = Some [(Submit, Transport, False)],
      submit_btn = Some [],
      email_input = Some \<lparr>in_value = '''', in_border = '''', in_listeners = []\<rparr>,
      email_error = Some \<lparr>innerText = '''', lb_display = ''none''\<rparr>,
      email_required = True, others_valid = False\<rparr>"

text \<open>A visit to \<open>path\<close> showing document \<open>d\<close>, with the items \<open>m\<close> in a working store.\<close>

definition visit :: "string \<Rightarrow> document \<Rightarrow> (string \<rightharpoonup> string) \<Rightarrow> world" where
  "visit path d m =
     \<lparr>localStorage = \<lparr>available = True, quota_full = False, items = m\<rparr>,
      loc = \<lparr>pathname = path, back_entries = []\<rparr>,
      doc = d, observers = [], timers = [], next_fn = 0\<rparr>"

text \<open>The same visit in a browser with storage disabled.\<close>

definition visit_no_storage :: "string \<Rightarrow> document \<Rightarrow> world" where
  "visit_no_storage path d =
     (visit path d Map.empty)\<lparr>localStorage :=
        \<lparr>available = False, quota_full = False, items = Map.empty\<rparr>\<rparr>"

text \<open>The same visit with a store that is full.\<close>

definition visit_full_storage :: "string \<Rightarrow> document \<Rightarrow> world" where
  "visit_full_storage path d =
     (visit path d Map.empty)\<lparr>localStorage :=
        \<lparr>available = True, quota_full = True, items = Map.empty\<rparr>\<rparr>"

text \<open>The gateway page with both names filled in and \<open>v\<close> typed into the mail field.\<close>

definition typed :: "string \<Rightarrow> document" where
  "typed v =
     gateway_document\<lparr>email_input :=
       Some \<lparr>in_value = v, in_border = '''', in_listeners = []\<rparr>,
       others_valid := True\<rparr>"

text \<open>The gateway page after the form library has shown its success panel.\<close>

definition submitted_document :: document where
  "submitted_document =
     gateway_document\<lparr>success_message :=
       Some \<lparr>sm_display = ''block'', sm_rendered = True\<rparr>\<rparr>"

section \<open>Properties\<close>

subsection \<open>Evaluation on concrete pages\<close>

lemma startsWith_iff: "startsWith s p \<longleftrightarrow> (\<exists>r. s = p @ r)"
  unfolding startsWith_def
  by (metis append_eq_conv_conj append_take_drop_id)

text \<open>
  The paths \<^verbatim>\<open>isGatewayPage\<close> accepts: each pattern, and each pattern without its last
  character, whatever that character is.
\<close>

lemma isGatewayPage_iff:
  "isGatewayPage w \<longleftrightarrow>
     pathname (loc w) \<in> {''/trxo/'', ''/trxo'', ''/trxo/index.html'', ''/trxo/index.htm'',
                         ''/'', '''', ''/index.html'', ''/index.htm''}"
  by (auto simp add: isGatewayPage_def GATEWAY_PATHS_def slice_0_m1_def)

subsection \<open>The enforcement decision\<close>

text \<open>
  Claim C1, as stated: for every navigation \<^verbatim>\<open>enforceAccess\<close> takes one of the four
  decisions. A first visit to a content page in a browser with storage disabled takes
  none: the read of the flag raises, the handler ends there, and the visitor stays on the
  content page.
\<close>

theorem no_decision_without_storage_counterexample:
  "enforceAccess (visit_no_storage ''/usage/'' empty_document) = Inl SecurityError
   \<and> handler enforceAccess (visit_no_storage ''/usage/'' empty_document)
       = visit_no_storage ''/usage/'' empty_document"
  by (simp add: handler_def enforceAccess_def read_access_def getItem_def
      visit_no_storage_def visit_def)

text \<open>
  Claim C1, amended. On every navigation with a readable store \<^verbatim>\<open>enforceAccess\<close> decides
  by the four cases of (hasAccess, onGateway), where hasAccess says that the store holds
  \<^verbatim>\<open>'true'\<close> under the key. With access on the gateway it replaces the current history
  entry by \<^verbatim>\<open>/trxo/home/\<close> if the path begins with \<^verbatim>\<open>/trxo\<close> and by \<^verbatim>\<open>/home/\<close> if not;
  without access on a content page it replaces it by \<^verbatim>\<open>/trxo/\<close> or by \<^verbatim>\<open>/\<close> in the same
  way; in both the entries behind stay as they were, which is what tells \<^verbatim>\<open>replace\<close> from
  a push. With access on a content page nothing changes. Without access on the gateway
  the location is left alone, the form observer is armed on the form container and header
  and tabs, where they exist, get \<^verbatim>\<open>display: none\<close>. On a navigation with an unavailable
  store it raises \<^verbatim>\<open>SecurityError\<close> and changes nothing.
\<close>

theorem enforceAccess_decision:
  "(available (localStorage w)
      \<and> items (localStorage w) ACCESS_KEY = Some ''true'' \<and> isGatewayPage w \<longrightarrow>
        enforceAccess w =
          Inr (w\<lparr>loc := \<lparr>pathname = (if \<exists>rest. pathname (loc w) = ''/trxo'' @ rest
                                       then ''/trxo/home/'' else ''/home/''),
                          back_entries = back_entries (loc w)\<rparr>\<rparr>))
   \<and> (available (localStorage w)
      \<and> items (localStorage w) ACCESS_KEY \<noteq> Some ''true'' \<and> \<not> isGatewayPage w \<longrightarrow>
        enforceAccess w =
          Inr (w\<lparr>loc := \<lparr>pathname = (if \<exists>rest. pathname (loc w) = ''/trxo'' @ rest
                                       then ''/trxo/'' else ''/''),
                          back_entries = back_entries (loc w)\<rparr>\<rparr>))
   \<and> (available (localStorage w)
      \<and> items (localStorage w) ACCESS_KEY = Some ''true'' \<and> \<not> isGatewayPage w \<longrightarrow>
        enforceAccess w = Inr w)
   \<and> (available (localStorage w)
      \<and> items (localStorage w) ACCESS_KEY \<noteq> Some ''true'' \<and> isGatewayPage w \<longrightarrow>
        enforceAccess w =
          Inr (w\<lparr>observers := (case sib_form_container (doc w) of
                                   None \<Rightarrow> observers w
                                 | Some c \<Rightarrow> observers w @ [c]),
                 doc := (doc w)\<lparr>md_header := map_option (\<lambda>_. ''none'') (md_header (doc w)),
                                 md_tabs := map_option (\<lambda>_. ''none'') (md_tabs (doc w))\<rparr>\<rparr>))
   \<and> (\<not> available (localStorage w) \<longrightarrow>
        enforceAccess w = Inl SecurityError \<and> handler enforceAccess w = w)"
  by (cases "sib_form_container (doc w)")
     (simp_all add: enforceAccess_def read_access_def getItem_def handler_def
        location_replace_def hide_chrome_def initFormObserver_def
        getDashboardPath_def getGatewayPath_def startsWith_iff)

text \<open>
  The cases on concrete visits, root deployment and prefixed deployment: a returning
  visitor on the gateway, a first visit to a content page, a returning visitor on a
  content page, a first visit to the gateway, a content page with storage disabled.
\<close>

theorem enforceAccess_decision_witness:
  "enforceAccess (visit ''/'' gateway_document [ACCESS_KEY \<mapsto> ''true'']) =
     Inr ((visit ''/'' gateway_document [ACCESS_KEY \<mapsto> ''true''])
            \<lparr>loc := \<lparr>pathname = ''/home/'', back_entries = []\<rparr>\<rparr>)
   \<and> enforceAccess (visit ''/trxo/'' gateway_document [ACCESS_KEY \<mapsto> ''true'']) =
     Inr ((visit ''/trxo/'' gateway_document [ACCESS_KEY \<mapsto> ''true''])
            \<lparr>loc := \<lparr>pathname = ''/trxo/home/'', back_entries = []\<rparr>\<rparr>)
   \<and> enforceAccess (visit ''/usage/'' empty_document Map.empty) =
     Inr ((visit ''/usage/'' empty_document Map.empty)
            \<lparr>loc := \<lparr>pathname = ''/'', back_entries = []\<rparr>\<rparr>)
   \<and> enforceAccess (visit ''/trxo/usage/'' empty_document Map.empty) =
     Inr ((visit ''/trxo/usage/'' empty_document Map.empty)
            \<lparr>loc := \<lparr>pathname = ''/trxo/'', back_entries = []\<rparr>\<rparr>)
   \<and> enforceAccess (visit ''/usage/'' empty_document [ACCESS_KEY \<mapsto> ''true'']) =
     Inr (visit ''/usage/'' empty_document [ACCESS_KEY \<mapsto> ''true''])
   \<and> enforceAccess (visit ''/'' gateway_document Map.empty) =
     Inr ((visit ''/'' gateway_document Map.empty)
            \<lparr>observers := [1],
              doc := gateway_document\<lparr>md_header := Some ''none'', md_tabs := Some ''none''\<rparr>\<rparr>)
   \<and> enforceAccess (visit_no_storage ''/trxo/usage/'' empty_document) = Inl SecurityError
   \<and> handler enforceAccess (visit_no_storage ''/trxo/usage/'' empty_document)
       = visit_no_storage ''/trxo/usage/'' empty_document"
  using enforceAccess_decision [of "visit ''/'' gateway_document [ACCESS_KEY \<mapsto> ''true'']"]
    enforceAccess_decision [of "visit ''/trxo/'' gateway_document [ACCESS_KEY \<mapsto> ''true'']"]
    enforceAccess_decision [of "visit ''/usage/'' empty_document Map.empty"]
    enforceAccess_decision [of "visit ''/trxo/usage/'' empty_document Map.empty"]
    enforceAccess_decision [of "visit ''/usage/'' empty_document [ACCESS_KEY \<mapsto> ''true'']"]
    enforceAccess_decision [of "visit ''/'' gateway_document Map.empty"]
    enforceAccess_decision [of "visit_no_storage ''/trxo/usage/'' empty_document"]
  by (simp add: visit_def visit_no_storage_def gateway_document_def empty_document_def
      isGatewayPage_iff ACCESS_KEY_def)

subsection \<open>Path classification\<close>

text \<open>
  Claim C2. A path is a gateway path exactly when it is one of the four patterns or one
  of them up to a trailing slash. The code compares with each pattern cut by one character:
  for the two patterns that end in \<^verbatim>\<open>.html\<close> the cut removes the \<^verbatim>\<open>l\<close>, so
  \<^verbatim>\<open>/index.htm\<close> and \<^verbatim>\<open>/trxo/index.htm\<close> are classified as the gateway.
\<close>

theorem index_htm_is_gateway:
  "isGatewayPage (visit ''/index.htm'' d m) \<and> isGatewayPage (visit ''/trxo/index.htm'' d m)"
  by (simp add: isGatewayPage_def GATEWAY_PATHS_def slice_0_m1_def visit_def)

subsection \<open>Redirect targets\<close>

text \<open>
  Claim C10. The prefix that chooses the redirect targets is a plain string-prefix test:
  every path that begins with the characters \<^verbatim>\<open>/trxo\<close>, whatever follows, gets
  \<^verbatim>\<open>/trxo/home/\<close> and \<^verbatim>\<open>/trxo/\<close>; every other path gets \<^verbatim>\<open>/home/\<close> and \<^verbatim>\<open>/\<close>.
\<close>

theorem redirect_targets_by_raw_prefix:
  "((\<exists>rest. pathname (loc w) = ''/trxo'' @ rest) \<longrightarrow>
      getDashboardPath w = ''/trxo/home/'' \<and> getGatewayPath w = ''/trxo/'')
   \<and> (\<not> (\<exists>rest. pathname (loc w) = ''/trxo'' @ rest) \<longrightarrow>
      getDashboardPath w = ''/home/'' \<and> getGatewayPath w = ''/'')"
  by (simp add: getDashboardPath_def getGatewayPath_def startsWith_iff)

text \<open>\<^verbatim>\<open>/trxonomy/page\<close> is not under \<^verbatim>\<open>/trxo/\<close> and still gets the prefixed targets.\<close>

theorem redirect_targets_by_raw_prefix_witness:
  "getDashboardPath (visit ''/trxonomy/page'' empty_document Map.empty) = ''/trxo/home/''
   \<and> getGatewayPath (visit ''/trxonomy/page'' empty_document Map.empty) = ''/trxo/''
   \<and> getDashboardPath (visit ''/usage/'' empty_document Map.empty) = ''/home/''
   \<and> getGatewayPath (visit ''/usage/'' empty_document Map.empty) = ''/''"
proof -
  have a: "\<exists>rest. pathname (loc (visit ''/trxonomy/page'' empty_document Map.empty))
                    = ''/trxo'' @ rest"
    by (simp add: visit_def)
  have b: "\<not> (\<exists>rest. pathname (loc (visit ''/usage/'' empty_document Map.empty))
                    = ''/trxo'' @ rest)"
    by (simp add: visit_def)
  show ?thesis
    using redirect_targets_by_raw_prefix [of "visit ''/trxonomy/page'' empty_document Map.empty"]
      redirect_targets_by_raw_prefix [of "visit ''/usage/'' empty_document Map.empty"] a b
    by blast
qed

subsection \<open>Reading the flag\<close>

text \<open>
  Claim C8, as stated: the read never propagates an error, and an unavailable store reads
  as no access. It fails in a browser with storage disabled: the read raises, and so
  does \<^verbatim>\<open>enforceAccess\<close>, which has made no decision by then.
\<close>

theorem read_access_raises_counterexample:
  "read_access (visit_no_storage ''/'' gateway_document) = Inl SecurityError
   \<and> enforceAccess (visit_no_storage ''/'' gateway_document) = Inl SecurityError"
  by (simp add: read_access_def enforceAccess_def getItem_def visit_no_storage_def visit_def)

text \<open>
  Claim C8, amended. On a readable store the read returns true exactly when the store
  holds the string \<^verbatim>\<open>'true'\<close> under the key, so a key that is not stored and any other
  value read as false. On an unavailable store the read raises \<^verbatim>\<open>SecurityError\<close> and
  \<^verbatim>\<open>enforceAccess\<close> ends with it.
\<close>

theorem read_access_cases:
  "(available (localStorage w) \<longrightarrow>
      read_access w = Inr (items (localStorage w) ACCESS_KEY = Some ''true''))
   \<and> (\<not> available (localStorage w) \<longrightarrow>
      read_access w = Inl SecurityError \<and> enforceAccess w = Inl SecurityError)"
  by (simp add: read_access_def enforceAccess_def getItem_def)

theorem read_access_cases_witness:
  "read_access (visit ''/'' gateway_document [ACCESS_KEY \<mapsto> ''true'']) = Inr True
   \<and> read_access (visit ''/'' gateway_document [ACCESS_KEY \<mapsto> ''yes'']) = Inr False
   \<and> read_access (visit ''/'' gateway_document Map.empty) = Inr False
   \<and> read_access (visit_no_storage ''/usage/'' empty_document) = Inl SecurityError
   \<and> enforceAccess (visit_no_storage ''/usage/'' empty_document) = Inl SecurityError"
  using read_access_cases [of "visit ''/'' gateway_document [ACCESS_KEY \<mapsto> ''true'']"]
    read_access_cases [of "visit ''/'' gateway_document [ACCESS_KEY \<mapsto> ''yes'']"]
    read_access_cases [of "visit ''/'' gateway_document Map.empty"]
    read_access_cases [of "visit_no_storage ''/usage/'' empty_document"]
  by (simp add: visit_def visit_no_storage_def)

subsection \<open>The form observer\<close>

text \<open>
  Claim C5, as stated: after any sequence of calls to \<^verbatim>\<open>initFormObserver\<close> at most one
  watcher observes the current render. Two calls on the same gateway page leave two
  watchers on its form container.
\<close>

theorem two_watchers_counterexample:
  "observers (initFormObserver (initFormObserver (visit ''/'' gateway_document Map.empty)))
     = [1, 1]"
  by (simp add: initFormObserver_def visit_def gateway_document_def)

lemma observers_initFormObserver:
  "sib_form_container (doc w) = Some c \<Longrightarrow> observers (initFormObserver w) = observers w @ [c]"
  by (simp add: initFormObserver_def)

lemma initFormObserver_no_container:
  "sib_form_container (doc w) = None \<Longrightarrow> initFormObserver w = w"
  by (simp add: initFormObserver_def)

lemma doc_initFormObserver: "doc (initFormObserver w) = doc w"
  by (simp add: initFormObserver_def split: option.splits)

lemma doc_funpow_initFormObserver: "doc ((initFormObserver ^^ k) w) = doc w"
  by (induction k) (simp_all add: doc_initFormObserver)

text \<open>
  Claim C5, amended. Every call of \<^verbatim>\<open>initFormObserver\<close> on a document that has the form
  container starts one more watcher on it and leaves every earlier watcher observing:
  \<open>k\<close> calls add \<open>k\<close> watchers. On a document without the container a call changes nothing.
\<close>

theorem watchers_accumulate:
  "(sib_form_container (doc w) = Some c \<longrightarrow>
      observers ((initFormObserver ^^ k) w) = observers w @ replicate k c)
   \<and> (sib_form_container (doc w) = None \<longrightarrow> (initFormObserver ^^ k) w = w)"
proof (intro conjI impI)
  assume c: "sib_form_container (doc w) = Some c"
  show "observers ((initFormObserver ^^ k) w) = observers w @ replicate k c"
  proof (induction k)
    case 0
    show ?case by simp
  next
    case (Suc k)
    have "sib_form_container (doc ((initFormObserver ^^ k) w)) = Some c"
      using c by (simp add: doc_funpow_initFormObserver)
    then show ?case
      using Suc by (simp add: observers_initFormObserver replicate_append_same)
  qed
next
  assume n: "sib_form_container (doc w) = None"
  show "(initFormObserver ^^ k) w = w"
    by (induction k) (simp_all add: n initFormObserver_no_container)
qed

theorem watchers_accumulate_witness:
  "observers ((initFormObserver ^^ 3) (visit ''/'' gateway_document Map.empty)) = [1, 1, 1]
   \<and> (initFormObserver ^^ 3) (visit ''/usage/'' empty_document Map.empty)
       = visit ''/usage/'' empty_document Map.empty"
proof -
  have c: "sib_form_container (doc (visit ''/'' gateway_document Map.empty)) = Some 1"
    by (simp add: visit_def gateway_document_def)
  have n: "sib_form_container (doc (visit ''/usage/'' empty_document Map.empty)) = None"
    by (simp add: visit_def empty_document_def)
  show ?thesis
    using watchers_accumulate [of "visit ''/'' gateway_document Map.empty" 1 3]
      watchers_accumulate [of "visit ''/usage/'' empty_document Map.empty" 1 3] c n
    by (simp add: visit_def numeral_3_eq_3)
qed

text \<open>
  Claim C6, as stated: whenever the callback of the watcher finds the success panel shown
  and rendered it sets the flag, replaces the content of the gateway container and
  schedules the redirect. With a store that is full the write of the flag raises, the
  callback ends there, and nothing of the three has happened.
\<close>

theorem success_with_full_store_counterexample:
  "observer_callback (visit_full_storage ''/'' submitted_document) = Inl QuotaExceededError
   \<and> handler observer_callback (visit_full_storage ''/'' submitted_document)
       = visit_full_storage ''/'' submitted_document"
  by (simp add: handler_def observer_callback_def setItem_def visit_full_storage_def visit_def
      submitted_document_def gateway_document_def)

text \<open>
  Claim C6, amended. When the callback of the watcher finds the success panel with a
  display other than \<^verbatim>\<open>none\<close> and rendered, and the store takes the write, its effects
  are these and no others: the flag is stored as \<^verbatim>\<open>'true'\<close>, so that the next read gives
  access; the gateway container, where there is one, has the confirmation as its content,
  and the elements it wrapped are no longer in the document; one timer of 1500 ms is
  pending more than before, and when it expires it leaves the list and replaces the
  current history entry by \<^verbatim>\<open>/trxo/home/\<close> if the path begins with \<^verbatim>\<open>/trxo\<close> and by
  \<^verbatim>\<open>/home/\<close> if not. When the store does not take the write the callback raises
  (\<^verbatim>\<open>SecurityError\<close> on an unavailable store, \<^verbatim>\<open>QuotaExceededError\<close> on a full one) and
  has none of these effects.
\<close>

theorem success_callback_effects:
  assumes "success_message (doc w) = Some sm"
      and "sm_display sm \<noteq> ''none''" and "sm_rendered sm"
  shows "(available (localStorage w) \<and> \<not> quota_full (localStorage w) \<longrightarrow>
           (\<exists>w'. observer_callback w = Inr w'
              \<and> w' = w\<lparr>localStorage :=
                         (localStorage w)\<lparr>items := (items (localStorage w))(ACCESS_KEY \<mapsto> ''true'')\<rparr>,
                       doc :=
                         (case gateway_container (doc w) of
                            None \<Rightarrow> doc w
                          | Some c \<Rightarrow>
                              \<lparr>md_header =
                                 (if Header \<in> set (wraps c) then None else md_header (doc w)),
                               md_tabs =
                                 (if Tabs \<in> set (wraps c) then None else md_tabs (doc w)),
                               success_message =
                                 (if SuccessMessage \<in> set (wraps c) then None
                                  else success_message (doc w)),
                               gateway_container =
                                 Some \<lparr>innerHTML = CONFIRMATION, wraps = []\<rparr>,
                               sib_form_container =
                                 (if FormContainer \<in> set (wraps c) then None
                                  else sib_form_container (doc w)),
                               sib_form =
                                 (if Form \<in> set (wraps c) then None else sib_form (doc w)),
                               submit_btn =
                                 (if Form \<in> set (wraps c) then None else submit_btn (doc w)),
                               email_input =
                                 (if EmailInput \<in> set (wraps c) then None
                                  else email_input (doc w)),
                               email_error =
                                 (if EmailError \<in> set (wraps c) then None
                                  else email_error (doc w)),
                               email_required = email_required (doc w),
                               others_valid = others_valid (doc w)\<rparr>),
                       timers := timers w @ [(1500, RedirectToDashboard)]\<rparr>
              \<and> read_access w' = Inr True
              \<and> fire_timer (length (timers w)) w' =
                  w'\<lparr>timers := timers w,
                     loc := \<lparr>pathname = (if \<exists>rest. pathname (loc w) = ''/trxo'' @ rest
                                          then ''/trxo/home/'' else ''/home/''),
                             back_entries = back_entries (loc w)\<rparr>\<rparr>))
       \<and> (\<not> available (localStorage w) \<longrightarrow>
            observer_callback w = Inl SecurityError \<and> handler observer_callback w = w)
       \<and> (available (localStorage w) \<and> quota_full (localStorage w) \<longrightarrow>
            observer_callback w = Inl QuotaExceededError \<and> handler observer_callback w = w)"
proof (intro conjI impI)
  assume s: "available (localStorage w) \<and> \<not> quota_full (localStorage w)"
  show "\<exists>w'. observer_callback w = Inr w'
              \<and> w' = w\<lparr>localStorage :=
                         (localStorage w)\<lparr>items := (items (localStorage w))(ACCESS_KEY \<mapsto> ''true'')\<rparr>,
                       doc :=
                         (case gateway_container (doc w) of
                            None \<Rightarrow> doc w
                          | Some c \<Rightarrow>
                              \<lparr>md_header =
                                 (if Header \<in> set (wraps c) then None else md_header (doc w)),
                               md_tabs =
                                 (if Tabs \<in> set (wraps c) then None else md_tabs (doc w)),
                               success_message =
                                 (if SuccessMessage \<in> set (wraps c) then None
                                  else success_message (doc w)),
                               gateway_container =
                                 Some \<lparr>innerHTML = CONFIRMATION, wraps = []\<rparr>,
                               sib_form_container =
                                 (if FormContainer \<in> set (wraps c) then None
                                  else sib_form_container (doc w)),
                               sib_form =
                                 (if Form \<in> set (wraps c) then None else sib_form (doc w)),
                               submit_btn =
                                 (if Form \<in> set (wraps c) then None else submit_btn (doc w)),
                               email_input =
                                 (if EmailInput \<in> set (wraps c) then None
                                  else email_input (doc w)),
                               email_error =
                                 (if EmailError \<in> set (wraps c) then None
                                  else email_error (doc w)),
                               email_required = email_required (doc w),
                               others_valid = others_valid (doc w)\<rparr>),
                       timers := timers w @ [(1500, RedirectToDashboard)]\<rparr>
              \<and> read_access w' = Inr True
              \<and> fire_timer (length (timers w)) w' =
                  w'\<lparr>timers := timers w,
                     loc := \<lparr>pathname = (if \<exists>rest. pathname (loc w) = ''/trxo'' @ rest
                                          then ''/trxo/home/'' else ''/home/''),
                             back_entries = back_entries (loc w)\<rparr>\<rparr>"
    using assms s
    by (cases "gateway_container (doc w)")
       (simp_all add: observer_callback_def setItem_def set_innerHTML_def remove_elements_def
          read_access_def getItem_def fire_timer_def location_replace_def
          getDashboardPath_def startsWith_iff)
next
  assume "\<not> available (localStorage w)"
  then show "observer_callback w = Inl SecurityError"
    using assms by (simp add: observer_callback_def setItem_def)
  then show "handler observer_callback w = w"
    by (simp add: handler_def)
next
  assume "available (localStorage w) \<and> quota_full (localStorage w)"
  then show "observer_callback w = Inl QuotaExceededError"
    using assms by (simp add: observer_callback_def setItem_def)
  then show "handler observer_callback w = w"
    by (simp add: handler_def)
qed

text \<open>
  The form library has shown its success panel on the gateway page of a first visit, on
  the prefixed deployment. The container wrapped the panel and the form, so after the
  callback they are gone and a second notification finds nothing to do. With the store
  full, or unavailable, the page stays as it was.
\<close>

theorem success_callback_effects_witness:
  "(\<exists>w'. observer_callback (visit ''/trxo/'' submitted_document Map.empty) = Inr w'
      \<and> items (localStorage w') ACCESS_KEY = Some ''true''
      \<and> gateway_container (doc w') = Some \<lparr>innerHTML = CONFIRMATION, wraps = []\<rparr>
      \<and> success_message (doc w') = None \<and> sib_form (doc w') = None
      \<and> email_input (doc w') = None \<and> md_header (doc w') = Some ''''
      \<and> timers w' = [(1500, RedirectToDashboard)]
      \<and> read_access w' = Inr True
      \<and> observer_callback w' = Inr w'
      \<and> timers (fire_timer 0 w') = []
      \<and> loc (fire_timer 0 w') = \<lparr>pathname = ''/trxo/home/'', back_entries = []\<rparr>)
   \<and> handler observer_callback (visit_full_storage ''/'' submitted_document)
       = visit_full_storage ''/'' submitted_document
   \<and> handler observer_callback (visit_no_storage ''/'' submitted_document)
       = visit_no_storage ''/'' submitted_document"
proof -
  let ?sm = "\<lparr>sm_display = ''block'', sm_rendered = True\<rparr>"
  let ?w = "visit ''/trxo/'' submitted_document Map.empty"
  have s: "success_message (doc (visit p submitted_document m)) = Some ?sm"
    and sf: "success_message (doc (visit_full_storage p submitted_document)) = Some ?sm"
    and sn: "success_message (doc (visit_no_storage p submitted_document)) = Some ?sm" for p m
    by (simp_all add: visit_def visit_full_storage_def visit_no_storage_def
        submitted_document_def gateway_document_def)
  have d: "sm_display ?sm \<noteq> ''none''" and r: "sm_rendered ?sm"
    by simp_all
  have a: "available (localStorage ?w) \<and> \<not> quota_full (localStorage ?w)"
    by (simp add: visit_def)
  have full: "available (localStorage (visit_full_storage ''/'' submitted_document))
              \<and> quota_full (localStorage (visit_full_storage ''/'' submitted_document))"
    by (simp add: visit_full_storage_def)
  have none: "\<not> available (localStorage (visit_no_storage ''/'' submitted_document))"
    by (simp add: visit_no_storage_def)
  note good = success_callback_effects [OF s d r, of "''/trxo/''" Map.empty,
      THEN conjunct1, rule_format, OF a]
  then obtain w' where
    1: "observer_callback ?w = Inr w'"
    and 2: "w' = ?w\<lparr>localStorage := \<lparr>available = True, quota_full = False,
                                      items = [ACCESS_KEY \<mapsto> ''true'']\<rparr>,
                    doc := gateway_document\<lparr>
                        success_message := None,
                        gateway_container := Some \<lparr>innerHTML = CONFIRMATION, wraps = []\<rparr>,
                        sib_form_container := None, sib_form := None, submit_btn := None,
                        email_input := None, email_error := None\<rparr>,
                    timers := [(1500, RedirectToDashboard)]\<rparr>"
    and 3: "read_access w' = Inr True"
    and 4: "fire_timer 0 w' =
              w'\<lparr>timers := [],
                 loc := \<lparr>pathname = ''/trxo/home/'', back_entries = []\<rparr>\<rparr>"
    by (simp add: visit_def submitted_document_def gateway_document_def)
  have 5: "observer_callback w' = Inr w'"
    by (simp add: 2 observer_callback_def visit_def gateway_document_def)
  have 6: "items (localStorage w') ACCESS_KEY = Some ''true''"
    "gateway_container (doc w') = Some \<lparr>innerHTML = CONFIRMATION, wraps = []\<rparr>"
    "success_message (doc w') = None" "sib_form (doc w') = None"
    "email_input (doc w') = None" "md_header (doc w') = Some ''''"
    "timers w' = [(1500, RedirectToDashboard)]"
    by (simp_all add: 2 visit_def gateway_document_def)
  have 7: "timers (fire_timer 0 w') = []"
    "loc (fire_timer 0 w') = \<lparr>pathname = ''/trxo/home/'', back_entries = []\<rparr>"
    by (simp_all add: 4)
  have 8: "handler observer_callback (visit_full_storage ''/'' submitted_document)
             = visit_full_storage ''/'' submitted_document"
    using success_callback_effects [OF sf d r, of "''/''"] full by blast
  have 9: "handler observer_callback (visit_no_storage ''/'' submitted_document)
             = visit_no_storage ''/'' submitted_document"
    using success_callback_effects [OF sn d r, of "''/''"] none by blast
  show ?thesis
    using 1 3 5 6 7 8 9 by blast
qed

subsection \<open>The validator's decision\<close>

text \<open>\<^verbatim>\<open>split\<close> gives one segment more than there are separators, so never none.\<close>

lemma length_split_acc: "length (split_acc sep acc s) = Suc (count_list s sep)"
  by (induction s arbitrary: acc) simp_all

lemma length_split: "length (split s sep) = Suc (count_list s sep)"
  by (simp add: split_def length_split_acc)

lemma split_lt_2_iff: "length (split s sep) < 2 \<longleftrightarrow> sep \<notin> set s"
  by (simp add: length_split count_list_0_iff)

lemma split_acc_no_sep: "sep \<notin> set s \<Longrightarrow> split_acc sep acc s = [rev acc @ s]"
  by (induction s arbitrary: acc) auto

lemma split_acc_not_Nil: "split_acc sep acc s \<noteq> []"
  by (induction s arbitrary: acc) simp_all

text \<open>The last segment is what follows the last separator.\<close>

lemma last_split_acc:
  "sep \<notin> set d \<Longrightarrow> last (split_acc sep acc (p @ sep # d)) = d"
  by (induction p arbitrary: acc) (simp_all add: split_acc_no_sep split_acc_not_Nil)

lemma last_split: "sep \<notin> set d \<Longrightarrow> last (split (p @ sep # d) sep) = d"
  by (simp add: split_def last_split_acc)

text \<open>
  Claim C3. What the submit interceptor \<^verbatim>\<open>validateEmail\<close> does with an event, by the state
  of the mail field. No field: the event and the page stay as they are. A trimmed,
  lower-cased value that splits at \<^verbatim>\<open>@\<close> into fewer than two segments: the same. Last
  segment one of \<^verbatim>\<open>gmail.com\<close>, \<^verbatim>\<open>yahoo.com\<close>, \<^verbatim>\<open>hotmail.com\<close>: the event has its default
  prevented and its immediate propagation stopped, the error label (where the page has
  one) shows the denial text, the field has the invalid border. Any other last segment:
  the event is untouched, the error label is hidden, the field has the valid border.
  The click interceptor \<^verbatim>\<open>validateEmailClick\<close> does the same with a click event.
\<close>

theorem validateEmail_decision:
  "(email_input (doc w) = None \<longrightarrow> validateEmail e w = (e, w))
   \<and> (email_input (doc w) = Some i
        \<and> length (split (toLowerCase (trim (in_value i))) CHR ''@'') < 2 \<longrightarrow>
      validateEmail e w = (e, w))
   \<and> (email_input (doc w) = Some i
        \<and> 2 \<le> length (split (toLowerCase (trim (in_value i))) CHR ''@'')
        \<and> last (split (toLowerCase (trim (in_value i))) CHR ''@'')
              \<in> {''gmail.com'', ''yahoo.com'', ''hotmail.com''} \<longrightarrow>
      validateEmail e w =
        (e\<lparr>defaultPrevented := True, immediateStopped := True\<rparr>,
         w\<lparr>doc := (doc w)\<lparr>
             email_error :=
               map_option (\<lambda>l. l\<lparr>innerText := DENIAL, lb_display := ''block''\<rparr>)
                 (email_error (doc w)),
             email_input := Some (i\<lparr>in_border := INVALID_BORDER\<rparr>)\<rparr>\<rparr>))
   \<and> (email_input (doc w) = Some i
        \<and> 2 \<le> length (split (toLowerCase (trim (in_value i))) CHR ''@'')
        \<and> last (split (toLowerCase (trim (in_value i))) CHR ''@'')
              \<notin> {''gmail.com'', ''yahoo.com'', ''hotmail.com''} \<longrightarrow>
      validateEmail e w =
        (e,
         w\<lparr>doc := (doc w)\<lparr>
             email_error := map_option (\<lambda>l. l\<lparr>lb_display := ''none''\<rparr>) (email_error (doc w)),
             email_input := Some (i\<lparr>in_border := VALID_BORDER\<rparr>)\<rparr>\<rparr>))
   \<and> validateEmailClick e w = validateEmail e w"
  by (simp add: validateEmail_def validateEmailClick_def processValidation_def
      blockedDomains_def Let_def)

lemmas string_defs = toLowerCase_def trim_def is_space_def lower_char_def split_def
  char_of_def bit_Suc_0_iff

theorem validateEmail_decision_witness:
  "validateEmail fresh_event (visit ''/'' empty_document Map.empty)
     = (fresh_event, visit ''/'' empty_document Map.empty)
   \<and> validateEmail fresh_event (visit ''/'' (typed ''not-an-email'') Map.empty)
     = (fresh_event, visit ''/'' (typed ''not-an-email'') Map.empty)
   \<and> validateEmail fresh_event (visit ''/'' (typed '' User@Gmail.com '') Map.empty)
     = (\<lparr>defaultPrevented = True, immediateStopped = True\<rparr>,
        visit ''/''
          ((typed '' User@Gmail.com '')\<lparr>
             email_error := Some \<lparr>innerText = DENIAL, lb_display = ''block''\<rparr>,
             email_input := Some \<lparr>in_value = '' User@Gmail.com '',
                                   in_border = ''1px solid #ff4949'', in_listeners = []\<rparr>\<rparr>)
          Map.empty)
   \<and> validateEmail fresh_event (visit ''/'' (typed ''user@example.com'') Map.empty)
     = (fresh_event,
        visit ''/''
          ((typed ''user@example.com'')\<lparr>
             email_error := Some \<lparr>innerText = '''', lb_display = ''none''\<rparr>,
             email_input := Some \<lparr>in_value = ''user@example.com'',
                                   in_border = ''1px solid #13ce66'', in_listeners = []\<rparr>\<rparr>)
          Map.empty)"
proof -
  let ?e = fresh_event
  let ?i = "\<lambda>v. \<lparr>in_value = v, in_border = '''', in_listeners = []\<rparr>"
  have a: "email_input (doc (visit ''/'' empty_document Map.empty)) = None"
    by (simp add: visit_def empty_document_def)
  have b: "email_input (doc (visit ''/'' (typed ''not-an-email'') Map.empty))
             = Some (?i ''not-an-email'')
           \<and> length (split (toLowerCase (trim (in_value (?i ''not-an-email'')))) CHR ''@'') < 2"
    by (simp add: visit_def typed_def string_defs)
  have c: "email_input (doc (visit ''/'' (typed '' User@Gmail.com '') Map.empty))
             = Some (?i '' User@Gmail.com '')
           \<and> 2 \<le> length (split (toLowerCase (trim (in_value (?i '' User@Gmail.com '')))) CHR ''@'')
           \<and> last (split (toLowerCase (trim (in_value (?i '' User@Gmail.com '')))) CHR ''@'')
               \<in> {''gmail.com'', ''yahoo.com'', ''hotmail.com''}"
    by (simp add: visit_def typed_def string_defs)
  have d: "email_input (doc (visit ''/'' (typed ''user@example.com'') Map.empty))
             = Some (?i ''user@example.com'')
           \<and> 2 \<le> length (split (toLowerCase (trim (in_value (?i ''user@example.com'')))) CHR ''@'')
           \<and> last (split (toLowerCase (trim (in_value (?i ''user@example.com'')))) CHR ''@'')
               \<notin> {''gmail.com'', ''yahoo.com'', ''hotmail.com''}"
    by (simp add: visit_def typed_def string_defs)
  have A: "validateEmail ?e (visit ''/'' empty_document Map.empty)
             = (?e, visit ''/'' empty_document Map.empty)"
    using validateEmail_decision [of "visit ''/'' empty_document Map.empty" ?e] a by blast
  have B: "validateEmail ?e (visit ''/'' (typed ''not-an-email'') Map.empty)
             = (?e, visit ''/'' (typed ''not-an-email'') Map.empty)"
    using validateEmail_decision
      [of "visit ''/'' (typed ''not-an-email'') Map.empty" ?e "?i ''not-an-email''"] b
    by blast
  note C = validateEmail_decision
      [of "visit ''/'' (typed '' User@Gmail.com '') Map.empty" ?e "?i '' User@Gmail.com ''",
        THEN conjunct2, THEN conjunct2, THEN conjunct1, rule_format, OF c]
  note D = validateEmail_decision
      [of "visit ''/'' (typed ''user@example.com'') Map.empty" ?e "?i ''user@example.com''",
        THEN conjunct2, THEN conjunct2, THEN conjunct2, THEN conjunct1, rule_format, OF d]
  show ?thesis
    using A B C D
    by (simp add: visit_def typed_def gateway_document_def fresh_event_def
        INVALID_BORDER_def VALID_BORDER_def)
qed

subsection \<open>The flag is only ever set\<close>

lemma localStorage_hide_chrome: "localStorage (hide_chrome w) = localStorage w"
  by (simp add: hide_chrome_def)

lemma localStorage_initFormObserver: "localStorage (initFormObserver w) = localStorage w"
  by (simp add: initFormObserver_def split: option.splits)

lemma localStorage_enforceAccess:
  "enforceAccess w = Inr w1 \<Longrightarrow> localStorage w1 = localStorage w"
  by (auto simp add: enforceAccess_def Let_def localStorage_hide_chrome
      localStorage_initFormObserver split: sum.splits if_splits)

lemma localStorage_processValidation: "localStorage (snd (processValidation w)) = localStorage w"
  by (simp add: processValidation_def Let_def split: option.splits)

lemma localStorage_clear_error: "localStorage (clear_error w) = localStorage w"
  by (simp add: clear_error_def)

lemma localStorage_invoke: "localStorage (snd (invoke l e w)) = localStorage w"
proof (cases l)
  case ValidateEmail
  then show ?thesis
    using localStorage_processValidation [of w]
    by (auto simp add: validateEmail_def split: prod.splits)
next
  case ValidateEmailClick
  then show ?thesis
    using localStorage_processValidation [of w]
    by (auto simp add: validateEmailClick_def split: prod.splits)
next
  case (ClearError n)
  then show ?thesis by (simp add: localStorage_clear_error)
next
  case Transport
  then show ?thesis by simp
qed

lemma localStorage_run_listeners:
  "localStorage (snd (snd (run_listeners ls e w))) = localStorage w"
proof (induction ls arbitrary: e w)
  case Nil
  show ?case by simp
next
  case (Cons l ls)
  show ?case
  proof (cases "immediateStopped e")
    case True
    then show ?thesis by simp
  next
    case False
    obtain e1 w1 where i: "invoke l e w = (e1, w1)"
      by (cases "invoke l e w")
    have "localStorage w1 = localStorage w"
      using localStorage_invoke [of l e w] i by simp
    moreover have "localStorage (snd (snd (run_listeners ls e1 w1))) = localStorage w1"
      by (rule Cons.IH)
    ultimately show ?thesis
      using False i by (auto split: prod.splits)
  qed
qed

lemma localStorage_dispatch_submit: "localStorage (snd (snd (dispatch_submit w))) = localStorage w"
  by (simp add: dispatch_submit_def localStorage_run_listeners split: option.splits)

lemma localStorage_dispatch_click: "localStorage (snd (snd (dispatch_click w))) = localStorage w"
  by (simp add: dispatch_click_def Let_def localStorage_run_listeners split: option.splits)

lemma localStorage_user_submits:
  "localStorage (snd (snd (user_submits how w))) = localStorage w"
proof (cases how)
  case BySubmitEvent
  then show ?thesis
    using localStorage_dispatch_submit [of w] by (auto split: prod.splits)
next
  case ByButton
  obtain f1 e1 w1 where c: "dispatch_click w = (f1, e1, w1)"
    by (cases "dispatch_click w") auto
  have 1: "localStorage w1 = localStorage w"
    using localStorage_dispatch_click [of w] c by simp
  have 2: "localStorage (snd (snd (dispatch_submit w1))) = localStorage w1"
    by (rule localStorage_dispatch_submit)
  show ?thesis
    using ByButton c 1 2 by (auto split: prod.splits)
qed

lemma localStorage_dispatch_input: "localStorage (dispatch_input w) = localStorage w"
  by (simp add: dispatch_input_def localStorage_run_listeners split: option.splits)

lemma localStorage_initEmailValidation: "localStorage (initEmailValidation w) = localStorage w"
  by (simp add: initEmailValidation_def Let_def split: option.splits)

lemma localStorage_fire_timer: "localStorage (fire_timer i w) = localStorage w"
  by (simp add: fire_timer_def Let_def localStorage_initEmailValidation
      split: timer_callback.splits)

lemma set_flag_idem: "set_flag (set_flag st) = set_flag st"
  by (simp add: set_flag_def)

lemma localStorage_observer_callback:
  "localStorage (handler observer_callback w) = localStorage w
   \<or> localStorage (handler observer_callback w) = set_flag (localStorage w)"
  by (auto simp add: handler_def observer_callback_def setItem_def set_flag_def
      split: option.splits sum.splits if_splits)

lemma localStorage_fold_callback:
  "localStorage (fold (\<lambda>_. handler observer_callback) xs w) = localStorage w
   \<or> localStorage (fold (\<lambda>_. handler observer_callback) xs w) = set_flag (localStorage w)"
proof (induction xs arbitrary: w)
  case Nil
  show ?case by simp
next
  case (Cons x xs)
  show ?case
    using Cons.IH [of "handler observer_callback w"] localStorage_observer_callback [of w]
    by (auto simp add: set_flag_idem)
qed

lemma localStorage_step:
  "localStorage (step op w) = localStorage w \<or> localStorage (step op w) = set_flag (localStorage w)"
proof (cases op)
  case Navigation
  then show ?thesis
    by (auto simp add: handler_def localStorage_enforceAccess split: sum.splits)
next
  case (Mutation n)
  then show ?thesis
    using localStorage_fold_callback by (simp add: notify_def)
next
  case (TimerExpires i)
  then show ?thesis by (simp add: localStorage_fire_timer)
next
  case EmailNavigation
  then show ?thesis by (simp add: schedule_init_def)
next
  case Attach
  then show ?thesis by (simp add: localStorage_initEmailValidation)
next
  case (UserSubmits how)
  then show ?thesis by (simp add: localStorage_user_submits)
next
  case UserTypes
  then show ?thesis by (simp add: localStorage_dispatch_input)
next
  case (Elsewhere f)
  then show ?thesis by simp
qed

lemma localStorage_run:
  "localStorage (run ops w) = localStorage w \<or> localStorage (run ops w) = set_flag (localStorage w)"
  unfolding run_def
proof (induction ops arbitrary: w)
  case Nil
  show ?case by simp
next
  case (Cons op ops)
  show ?case
    using Cons.IH [of "step op w"] localStorage_step [of op w]
    by (auto simp add: set_flag_idem)
qed

text \<open>
  Claim C9. Whatever happens in the page, in any order and any number of times, the
  store afterwards is the store before or the store before with \<^verbatim>\<open>'true'\<close> written under
  the key: that write, made by the observer callback, is the only one. So a flag that is
  set stays set, and the read that \<^verbatim>\<open>enforceAccess\<close> starts with finds it set.
\<close>

theorem access_flag_monotone:
  "(localStorage (run ops w) = localStorage w
      \<or> localStorage (run ops w)
           = (localStorage w)\<lparr>items := (items (localStorage w))(ACCESS_KEY \<mapsto> ''true'')\<rparr>)
   \<and> (granted w \<longrightarrow> granted (run ops w))
   \<and> (granted w \<and> available (localStorage w) \<longrightarrow> read_access (run ops w) = Inr True)"
  using localStorage_run [of ops w]
  by (auto simp add: set_flag_def granted_def read_access_def getItem_def)

theorem access_flag_monotone_witness:
  "granted (visit ''/'' gateway_document [ACCESS_KEY \<mapsto> ''true''])
   \<and> granted (run [Navigation, Attach, UserTypes, UserSubmits ByButton, Mutation 1,
                    TimerExpires 0, Elsewhere (\<lambda>w. w\<lparr>doc := empty_document\<rparr>), Navigation]
                (visit ''/'' gateway_document [ACCESS_KEY \<mapsto> ''true'']))
   \<and> read_access (run [Navigation, Attach, UserTypes, UserSubmits ByButton, Mutation 1,
                    TimerExpires 0, Elsewhere (\<lambda>w. w\<lparr>doc := empty_document\<rparr>), Navigation]
                (visit ''/'' gateway_document [ACCESS_KEY \<mapsto> ''true''])) = Inr True"
proof -
  have g: "granted (visit ''/'' gateway_document [ACCESS_KEY \<mapsto> ''true''])"
    by (simp add: granted_def visit_def)
  have a: "available (localStorage (visit ''/'' gateway_document [ACCESS_KEY \<mapsto> ''true'']))"
    by (simp add: visit_def)
  show ?thesis
    using access_flag_monotone
      [of "[Navigation, Attach, UserTypes, UserSubmits ByButton, Mutation 1,
            TimerExpires 0, Elsewhere (\<lambda>w. w\<lparr>doc := empty_document\<rparr>), Navigation]"
          "visit ''/'' gateway_document [ACCESS_KEY \<mapsto> ''true'']"] g a
    by blast
qed

subsection \<open>Attaching the validator\<close>

text \<open>Remove, then add: the registration ends up in the list once, at its end.\<close>

lemma reattach:
  "addEventListener (removeEventListener regs r) r = filter (\<lambda>x. x \<noteq> r) regs @ [r]"
  by (simp add: addEventListener_def removeEventListener_def)

lemma reattach_idem:
  "filter (\<lambda>x. x \<noteq> r) (filter (\<lambda>x. x \<noteq> r) regs @ [r]) @ [r] = filter (\<lambda>x. x \<noteq> r) regs @ [r]"
  by simp

lemma count_reattach: "count_list (filter (\<lambda>x. x \<noteq> r) regs @ [r]) r = 1"
  by (simp add: count_list_0_iff)

lemma sib_form_initEmailValidation:
  "sib_form (doc (initEmailValidation w)) =
     map_option (\<lambda>f. filter (\<lambda>x. x \<noteq> (Submit, ValidateEmail, True)) f
                       @ [(Submit, ValidateEmail, True)])
       (sib_form (doc w))"
  by (simp add: initEmailValidation_def Let_def reattach split: option.splits)

lemma submit_btn_initEmailValidation:
  "sib_form (doc w) = Some f \<Longrightarrow>
   submit_btn (doc (initEmailValidation w)) =
     map_option (\<lambda>b. filter (\<lambda>x. x \<noteq> (Click, ValidateEmailClick, True)) b
                       @ [(Click, ValidateEmailClick, True)])
       (submit_btn (doc w))"
  by (simp add: initEmailValidation_def Let_def reattach option.map_comp comp_def
      split: option.splits)

lemma in_value_initEmailValidation:
  "map_option in_value (email_input (doc (initEmailValidation w)))
     = map_option in_value (email_input (doc w))"
  by (simp add: initEmailValidation_def Let_def split: option.splits)

text \<open>Any number of attaches, one at least, leaves the lists one attach leaves.\<close>

lemma funpow_Suc_apply: "(f ^^ Suc n) x = f ((f ^^ n) x)"
  by simp

lemma sib_form_attach_many:
  "sib_form (doc ((initEmailValidation ^^ Suc n) w)) = sib_form (doc (initEmailValidation w))"
proof (induction n)
  case 0
  show ?case by simp
next
  case (Suc n)
  let ?r = "(Submit, ValidateEmail, True)"
  let ?g = "\<lambda>f. filter (\<lambda>x. x \<noteq> ?r) f @ [?r]"
  have "sib_form (doc ((initEmailValidation ^^ Suc (Suc n)) w))
          = map_option ?g (sib_form (doc ((initEmailValidation ^^ Suc n) w)))"
    by (simp only: funpow_Suc_apply [where n = "Suc n"] sib_form_initEmailValidation)
  also have "\<dots> = map_option ?g (map_option ?g (sib_form (doc w)))"
    by (simp only: Suc.IH sib_form_initEmailValidation)
  also have "\<dots> = map_option ?g (sib_form (doc w))"
    by (cases "sib_form (doc w)") simp_all
  finally show ?case
    by (simp only: sib_form_initEmailValidation)
qed

lemma submit_btn_attach_many:
  assumes "sib_form (doc w) = Some f"
  shows "submit_btn (doc ((initEmailValidation ^^ Suc n) w))
           = submit_btn (doc (initEmailValidation w))"
proof (induction n)
  case 0
  show ?case by simp
next
  case (Suc n)
  let ?r = "(Click, ValidateEmailClick, True)"
  let ?g = "\<lambda>b. filter (\<lambda>x. x \<noteq> ?r) b @ [?r]"
  obtain f' where f': "sib_form (doc ((initEmailValidation ^^ Suc n) w)) = Some f'"
    using assms by (simp only: sib_form_attach_many sib_form_initEmailValidation) simp
  have "submit_btn (doc ((initEmailValidation ^^ Suc (Suc n)) w))
          = map_option ?g (submit_btn (doc ((initEmailValidation ^^ Suc n) w)))"
    by (simp only: funpow_Suc_apply [where n = "Suc n"] submit_btn_initEmailValidation [OF f'])
  also have "\<dots> = map_option ?g (map_option ?g (submit_btn (doc w)))"
    by (simp only: Suc.IH submit_btn_initEmailValidation [OF assms])
  also have "\<dots> = map_option ?g (submit_btn (doc w))"
    by (cases "submit_btn (doc w)") simp_all
  finally show ?case
    by (simp only: submit_btn_initEmailValidation [OF assms])
qed

lemma in_value_attach_many:
  "map_option in_value (email_input (doc ((initEmailValidation ^^ n) w)))
     = map_option in_value (email_input (doc w))"
  by (induction n) (simp_all add: in_value_initEmailValidation)

subsection \<open>Dispatch\<close>

text \<open>Whether the validation accepts depends on the value of the mail field alone.\<close>

lemma fst_processValidation:
  "fst (processValidation w) =
     (case map_option in_value (email_input (doc w)) of
        None \<Rightarrow> True
      | Some v \<Rightarrow>
          length (split (toLowerCase (trim v)) CHR ''@'') < 2
          \<or> last (split (toLowerCase (trim v)) CHR ''@'') \<notin> set blockedDomains)"
  by (simp add: processValidation_def Let_def split: option.splits)

lemma same_value_same_verdict:
  "map_option in_value (email_input (doc w1)) = map_option in_value (email_input (doc w))
   \<Longrightarrow> fst (processValidation w1) = fst (processValidation w)"
  by (simp add: fst_processValidation)

lemma sib_form_processValidation:
  "sib_form (doc (snd (processValidation w))) = sib_form (doc w)"
  by (simp add: processValidation_def Let_def split: option.splits)

lemma run_listeners_stopped: "immediateStopped e \<Longrightarrow> run_listeners ls e w = ([], e, w)"
  by (cases ls) simp_all

lemma run_listeners_append:
  "run_listeners (xs @ ys) e w =
     (case run_listeners xs e w of
        (f1, e1, w1) \<Rightarrow>
          (case run_listeners ys e1 w1 of (f2, e2, w2) \<Rightarrow> (f1 @ f2, e2, w2)))"
proof (induction xs arbitrary: e w)
  case Nil
  show ?case by (simp split: prod.splits)
next
  case (Cons x xs)
  show ?case
  proof (cases "immediateStopped e")
    case True
    then show ?thesis by (simp add: run_listeners_stopped)
  next
    case False
    then show ?thesis
      by (simp add: Cons.IH split: prod.splits)
  qed
qed

lemma run_transport_only:
  "list_all (\<lambda>l. l = Transport) ls \<Longrightarrow> \<not> immediateStopped e \<Longrightarrow> run_listeners ls e w = (ls, e, w)"
  by (induction ls) simp_all

text \<open>
  A dispatch over third-party listeners with one interceptor among them: all of them
  run if the validation accepts; on a denial those after the interceptor do not.
\<close>

lemma run_one_validator:
  assumes "list_all (\<lambda>l. l = Transport) A" and "list_all (\<lambda>l. l = Transport) B"
      and "v = ValidateEmail \<or> v = ValidateEmailClick" and "\<not> immediateStopped e"
  shows "run_listeners (A @ v # B) e w =
           (if fst (processValidation w)
            then (A @ v # B, e, snd (processValidation w))
            else (A @ [v], e\<lparr>defaultPrevented := True, immediateStopped := True\<rparr>,
                  snd (processValidation w)))"
proof -
  obtain ok w1 where p: "processValidation w = (ok, w1)"
    by (cases "processValidation w")
  have i: "invoke v e w =
             (if ok then (e, w1)
              else (e\<lparr>defaultPrevented := True, immediateStopped := True\<rparr>, w1))"
    using assms(3) p by (auto simp add: validateEmail_def validateEmailClick_def)
  have "run_listeners (v # B) e w =
          (if ok then (v # B, e, w1)
           else ([v], e\<lparr>defaultPrevented := True, immediateStopped := True\<rparr>, w1))"
    using assms(2,4) i by (simp add: run_transport_only run_listeners_stopped)
  then show ?thesis
    using assms(1,4) p by (simp add: run_listeners_append run_transport_only)
qed

lemma transport_capturing: "third_party regs \<Longrightarrow> list_all (\<lambda>l. l = Transport) (capturing ty regs)"
  by (induction regs) (simp_all add: third_party_def capturing_def)

lemma transport_bubbling: "third_party regs \<Longrightarrow> list_all (\<lambda>l. l = Transport) (bubbling ty regs)"
  by (induction regs) (simp_all add: third_party_def bubbling_def)

lemma third_party_filter:
  "third_party regs \<Longrightarrow> l \<noteq> Transport \<Longrightarrow> filter (\<lambda>x. x \<noteq> (ty, l, c)) regs = regs"
  by (induction regs) (auto simp add: third_party_def)

lemma validations_transport_only: "list_all (\<lambda>l. l = Transport) ls \<Longrightarrow> validations ls = 0"
  by (induction ls) (simp_all add: validations_def)

lemma validations_append: "validations (xs @ ys) = validations xs + validations ys"
  by (simp add: validations_def)

lemma validations_Cons:
  "validations (l # ls) = (if l = ValidateEmail \<or> l = ValidateEmailClick then 1 else 0) + validations ls"
  by (simp add: validations_def)

text \<open>The listeners a submit event meets on a form that holds the interceptor.\<close>

lemma at_target_submit_attached:
  "at_target Submit (f @ [(Submit, ValidateEmail, True)] @ g)
     = capturing Submit f @ ValidateEmail # (capturing Submit g @ bubbling Submit f @ bubbling Submit g)"
  by (simp add: at_target_def capturing_def bubbling_def)

lemma click_listeners_attached:
  "capturing Click (f @ [(Submit, ValidateEmail, True)])
     @ at_target Click (b @ [(Click, ValidateEmailClick, True)])
     @ bubbling Click (f @ [(Submit, ValidateEmail, True)])
   = (capturing Click f @ capturing Click b) @ ValidateEmailClick
       # (bubbling Click b @ bubbling Click f)"
  by (simp add: at_target_def capturing_def bubbling_def)

lemma submit_on_attached_form:
  assumes "sib_form (doc x) = Some (f @ [(Submit, ValidateEmail, True)] @ g)"
      and "third_party f" and "third_party g"
  shows "dispatch_submit x =
           (if fst (processValidation x)
            then (capturing Submit f @ ValidateEmail
                    # (capturing Submit g @ bubbling Submit f @ bubbling Submit g),
                  fresh_event, snd (processValidation x))
            else (capturing Submit f @ [ValidateEmail],
                  fresh_event\<lparr>defaultPrevented := True, immediateStopped := True\<rparr>,
                  snd (processValidation x)))"
proof -
  have A: "list_all (\<lambda>l. l = Transport) (capturing Submit f)"
    using assms(2) by (rule transport_capturing)
  have B: "list_all (\<lambda>l. l = Transport)
             (capturing Submit g @ bubbling Submit f @ bubbling Submit g)"
    using assms(2,3) by (simp add: transport_capturing transport_bubbling)
  have "dispatch_submit x =
          run_listeners
            (capturing Submit f @ ValidateEmail
               # (capturing Submit g @ bubbling Submit f @ bubbling Submit g))
            fresh_event x"
    using assms(1) by (simp only: dispatch_submit_def at_target_submit_attached option.case)
  also have "\<dots> =
          (if fst (processValidation x)
            then (capturing Submit f @ ValidateEmail
                    # (capturing Submit g @ bubbling Submit f @ bubbling Submit g),
                  fresh_event, snd (processValidation x))
            else (capturing Submit f @ [ValidateEmail],
                  fresh_event\<lparr>defaultPrevented := True, immediateStopped := True\<rparr>,
                  snd (processValidation x)))"
    by (rule run_one_validator [OF A B]) (simp_all add: fresh_event_def)
  finally show ?thesis .
qed

lemma capturing_Nil: "capturing ty [] = []"
  by (simp add: capturing_def)

lemma bubbling_Nil: "bubbling ty [] = []"
  by (simp add: bubbling_def)

lemma validations_by_submit_event:
  "validations (fst (user_submits BySubmitEvent x)) = validations (fst (dispatch_submit x))"
  by (cases "dispatch_submit x") simp

lemma submit_event_validations:
  assumes "sib_form (doc x) = Some (f @ [(Submit, ValidateEmail, True)])" and "third_party f"
  shows "validations (fst (dispatch_submit x)) = 1"
proof -
  have g: "third_party []"
    by (simp add: third_party_def)
  have "sib_form (doc x) = Some (f @ [(Submit, ValidateEmail, True)] @ [])"
    using assms(1) by simp
  from submit_on_attached_form [OF this assms(2) g] show ?thesis
    using assms(2)
    by (simp add: validations_append validations_Cons validations_transport_only
        transport_capturing transport_bubbling capturing_Nil bubbling_Nil)
qed

lemma click_on_attached_button:
  assumes "sib_form (doc x) = Some (f @ [(Submit, ValidateEmail, True)])"
      and "submit_btn (doc x) = Some (b @ [(Click, ValidateEmailClick, True)])"
      and "third_party f" and "third_party b"
  shows "dispatch_click x =
           (if fst (processValidation x)
            then ((capturing Click f @ capturing Click b) @ ValidateEmailClick
                    # (bubbling Click b @ bubbling Click f),
                  fresh_event, snd (processValidation x))
            else ((capturing Click f @ capturing Click b) @ [ValidateEmailClick],
                  fresh_event\<lparr>defaultPrevented := True, immediateStopped := True\<rparr>,
                  snd (processValidation x)))"
proof -
  have A: "list_all (\<lambda>l. l = Transport) (capturing Click f @ capturing Click b)"
    using assms(3,4) by (simp add: transport_capturing)
  have B: "list_all (\<lambda>l. l = Transport) (bubbling Click b @ bubbling Click f)"
    using assms(3,4) by (simp add: transport_bubbling)
  have "dispatch_click x =
          run_listeners
            ((capturing Click f @ capturing Click b) @ ValidateEmailClick
               # (bubbling Click b @ bubbling Click f))
            fresh_event x"
    using assms(1,2)
    by (simp only: dispatch_click_def Let_def click_listeners_attached option.case)
  also have "\<dots> =
           (if fst (processValidation x)
            then ((capturing Click f @ capturing Click b) @ ValidateEmailClick
                    # (bubbling Click b @ bubbling Click f),
                  fresh_event, snd (processValidation x))
            else ((capturing Click f @ capturing Click b) @ [ValidateEmailClick],
                  fresh_event\<lparr>defaultPrevented := True, immediateStopped := True\<rparr>,
                  snd (processValidation x)))"
    by (rule run_one_validator [OF A B]) (simp_all add: fresh_event_def)
  finally show ?thesis .
qed

text \<open>
  Whether the fields of the form pass the browser's check depends on the attribute and
  the value of the mail field and on the other fields; neither the validation nor an
  attach touches them.
\<close>

lemma satisfies_constraints_cong:
  assumes "others_valid d1 = others_valid d" and "email_required d1 = email_required d"
      and "map_option in_value (email_input d1) = map_option in_value (email_input d)"
  shows "satisfies_constraints d1 = satisfies_constraints d"
  using assms
  by (cases "email_input d"; cases "email_input d1") (auto simp add: satisfies_constraints_def)

lemma in_value_processValidation:
  "map_option in_value (email_input (doc (snd (processValidation x))))
     = map_option in_value (email_input (doc x))"
  by (simp add: processValidation_def Let_def split: option.splits)

lemma constraints_processValidation:
  "satisfies_constraints (doc (snd (processValidation x))) = satisfies_constraints (doc x)"
proof (rule satisfies_constraints_cong)
  show "others_valid (doc (snd (processValidation x))) = others_valid (doc x)"
    by (simp add: processValidation_def Let_def split: option.splits)
  show "email_required (doc (snd (processValidation x))) = email_required (doc x)"
    by (simp add: processValidation_def Let_def split: option.splits)
  show "map_option in_value (email_input (doc (snd (processValidation x))))
          = map_option in_value (email_input (doc x))"
    by (rule in_value_processValidation)
qed

lemma constraints_initEmailValidation:
  "satisfies_constraints (doc (initEmailValidation w)) = satisfies_constraints (doc w)"
proof (rule satisfies_constraints_cong)
  show "others_valid (doc (initEmailValidation w)) = others_valid (doc w)"
    by (simp add: initEmailValidation_def Let_def split: option.splits)
  show "email_required (doc (initEmailValidation w)) = email_required (doc w)"
    by (simp add: initEmailValidation_def Let_def split: option.splits)
  show "map_option in_value (email_input (doc (initEmailValidation w)))
          = map_option in_value (email_input (doc w))"
    by (rule in_value_initEmailValidation)
qed

lemma constraints_attach_many:
  "satisfies_constraints (doc ((initEmailValidation ^^ n) w)) = satisfies_constraints (doc w)"
  by (induction n) (simp_all add: constraints_initEmailValidation)

text \<open>
  A click on the button of an attached form: the click interceptor validates; if it
  accepts and the fields pass the browser's check, the submit event follows and the
  submit interceptor validates again.
\<close>

lemma button_validations:
  assumes "sib_form (doc x) = Some (f @ [(Submit, ValidateEmail, True)])"
      and "submit_btn (doc x) = Some (b @ [(Click, ValidateEmailClick, True)])"
      and "third_party f" and "third_party b"
  shows "validations (fst (user_submits ByButton x))
           = (if fst (processValidation x) \<and> satisfies_constraints (doc x) then 2 else 1)"
proof (cases "fst (processValidation x)")
  case True
  have c: "dispatch_click x =
             ((capturing Click f @ capturing Click b) @ ValidateEmailClick
                # (bubbling Click b @ bubbling Click f),
              fresh_event, snd (processValidation x))"
    using click_on_attached_button [OF assms] True by simp
  have v1: "validations ((capturing Click f @ capturing Click b) @ ValidateEmailClick
                # (bubbling Click b @ bubbling Click f)) = 1"
    using assms(3,4)
    by (simp add: validations_append validations_Cons validations_transport_only
        transport_capturing transport_bubbling)
  show ?thesis
  proof (cases "satisfies_constraints (doc x)")
    case False
    then have "fst (user_submits ByButton x)
                 = (capturing Click f @ capturing Click b) @ ValidateEmailClick
                     # (bubbling Click b @ bubbling Click f)"
      using c by (simp add: fresh_event_def constraints_processValidation)
    then show ?thesis
      using v1 False by simp
  next
    case ok: True
    have "sib_form (doc (snd (processValidation x))) = Some (f @ [(Submit, ValidateEmail, True)])"
      using assms(1) by (simp add: sib_form_processValidation)
    then have v2: "validations (fst (dispatch_submit (snd (processValidation x)))) = 1"
      using assms(3) by (rule submit_event_validations)
    obtain f2 e2 w2 where d: "dispatch_submit (snd (processValidation x)) = (f2, e2, w2)"
      by (cases "dispatch_submit (snd (processValidation x))") auto
    have "fst (user_submits ByButton x)
            = ((capturing Click f @ capturing Click b) @ ValidateEmailClick
                  # (bubbling Click b @ bubbling Click f)) @ f2"
      using c d ok by (simp add: fresh_event_def constraints_processValidation)
    then have "validations (fst (user_submits ByButton x)) = 1 + validations f2"
      using v1 by (simp only: validations_append)
    then show ?thesis
      using True ok v2 d by simp
  qed
next
  case False
  have c: "dispatch_click x =
             ((capturing Click f @ capturing Click b) @ [ValidateEmailClick],
              fresh_event\<lparr>defaultPrevented := True, immediateStopped := True\<rparr>,
              snd (processValidation x))"
    using click_on_attached_button [OF assms] False by simp
  show ?thesis
    using False c assms(3,4)
    by (simp add: validations_append validations_Cons validations_transport_only
        transport_capturing)
qed

lemma attached_lists:
  assumes "sib_form (doc w) = Some f" and "submit_btn (doc w) = Some b"
      and "third_party f" and "third_party b"
  shows "sib_form (doc ((initEmailValidation ^^ Suc n) w))
           = Some (f @ [(Submit, ValidateEmail, True)])"
    and "submit_btn (doc ((initEmailValidation ^^ Suc n) w))
           = Some (b @ [(Click, ValidateEmailClick, True)])"
proof -
  show "sib_form (doc ((initEmailValidation ^^ Suc n) w))
           = Some (f @ [(Submit, ValidateEmail, True)])"
    using assms(1,3)
    by (simp only: sib_form_attach_many sib_form_initEmailValidation)
       (simp add: third_party_filter)
  show "submit_btn (doc ((initEmailValidation ^^ Suc n) w))
           = Some (b @ [(Click, ValidateEmailClick, True)])"
    using assms(2,4)
    by (simp only: submit_btn_attach_many [OF assms(1)] submit_btn_initEmailValidation [OF assms(1)])
       (simp add: third_party_filter)
qed

text \<open>
  Claim C4, as stated: after the attach routine has run any number of times, one user
  submission runs the validation logic exactly once. After two attaches on the gateway
  page, with both names filled in and an accepted address in the field, a click on the
  submit button runs it twice: in the click interceptor, then in the submit interceptor.
\<close>

theorem button_validates_twice_counterexample:
  "validations (fst (user_submits ByButton
      ((initEmailValidation ^^ 2) (visit ''/'' (typed ''user@example.com'') Map.empty)))) = 2"
  by (simp add: numeral_2_eq_2 initEmailValidation_def addEventListener_def
      removeEventListener_def visit_def typed_def gateway_document_def dispatch_click_def
      dispatch_submit_def at_target_def capturing_def bubbling_def fresh_event_def
      validateEmail_def validateEmailClick_def processValidation_def string_defs
      blockedDomains_def validations_def satisfies_constraints_def Let_def)

text \<open>
  Claim C4, amended. On a render whose form and submit button hold third-party listeners
  only, any number of attaches, one at least, leaves the submit interceptor registered
  once on the form and the click interceptor once on the button, each at the end of its
  list: every attach removes the registration by identity and adds it again. A submit
  event then runs the validation logic exactly once. A click on the submit button runs
  it once if the address is denied, once if the address is accepted and a required
  field of the form is empty (the browser then fires no submit event), and twice if the
  address is accepted and the fields pass the browser's check: once in the click
  interceptor and once more in the submit interceptor. None of these counts depends on
  the number of attaches.
\<close>

theorem attach_any_number_of_times:
  assumes "sib_form (doc w) = Some f" and "submit_btn (doc w) = Some b"
      and "third_party f" and "third_party b"
  shows "sib_form (doc ((initEmailValidation ^^ Suc n) w))
           = Some (f @ [(Submit, ValidateEmail, True)])
       \<and> submit_btn (doc ((initEmailValidation ^^ Suc n) w))
           = Some (b @ [(Click, ValidateEmailClick, True)])
       \<and> validations (fst (user_submits BySubmitEvent ((initEmailValidation ^^ Suc n) w))) = 1
       \<and> validations (fst (user_submits ByButton ((initEmailValidation ^^ Suc n) w)))
           = (if fst (processValidation w) \<and> satisfies_constraints (doc w) then 2 else 1)"
proof -
  let ?w = "(initEmailValidation ^^ Suc n) w"
  note lists = attached_lists [OF assms, of n]
  have v: "fst (processValidation ?w) = fst (processValidation w)"
    by (rule same_value_same_verdict) (rule in_value_attach_many)
  have k: "satisfies_constraints (doc ?w) = satisfies_constraints (doc w)"
    by (rule constraints_attach_many)
  have s: "validations (fst (user_submits BySubmitEvent ?w)) = 1"
    using submit_event_validations [OF lists(1) assms(3)]
    by (simp only: validations_by_submit_event)
  have c: "validations (fst (user_submits ByButton ?w))
             = (if fst (processValidation w) \<and> satisfies_constraints (doc w) then 2 else 1)"
    using button_validations [OF lists assms(3,4)] v k by simp
  show ?thesis
    using lists s c by blast
qed

text \<open>
  Three attaches on the gateway page with both names filled in: a denied address, an
  accepted address, and the mail field left empty, which the validation accepts and the
  browser's check of the required field does not.
\<close>

theorem attach_any_number_of_times_witness:
  "validations (fst (user_submits BySubmitEvent
      ((initEmailValidation ^^ 3) (visit ''/'' (typed ''user@gmail.com'') Map.empty)))) = 1
   \<and> validations (fst (user_submits ByButton
      ((initEmailValidation ^^ 3) (visit ''/'' (typed ''user@gmail.com'') Map.empty)))) = 1
   \<and> validations (fst (user_submits ByButton
      ((initEmailValidation ^^ 3) (visit ''/'' (typed ''user@example.com'') Map.empty)))) = 2
   \<and> validations (fst (user_submits ByButton
      ((initEmailValidation ^^ 3) (visit ''/'' (typed '''') Map.empty)))) = 1
   \<and> sib_form (doc ((initEmailValidation ^^ 3) (visit ''/'' (typed ''user@gmail.com'') Map.empty)))
       = Some [(Submit, Transport, False), (Submit, ValidateEmail, True)]"
proof -
  have f: "sib_form (doc (visit ''/'' (typed v) Map.empty)) = Some [(Submit, Transport, False)]"
    and b: "submit_btn (doc (visit ''/'' (typed v) Map.empty)) = Some []" for v
    by (simp_all add: visit_def typed_def gateway_document_def)
  have tf: "third_party [(Submit, Transport, False)]" and tb: "third_party []"
    by (simp_all add: third_party_def)
  have g: "\<not> fst (processValidation (visit ''/'' (typed ''user@gmail.com'') Map.empty))"
    by (simp add: processValidation_def visit_def typed_def gateway_document_def string_defs
        blockedDomains_def)
  have x: "fst (processValidation (visit ''/'' (typed ''user@example.com'') Map.empty))"
    and xs: "satisfies_constraints (doc (visit ''/'' (typed ''user@example.com'') Map.empty))"
    by (simp_all add: processValidation_def satisfies_constraints_def visit_def typed_def
        gateway_document_def string_defs blockedDomains_def)
  have e: "fst (processValidation (visit ''/'' (typed '''') Map.empty))"
    and es: "\<not> satisfies_constraints (doc (visit ''/'' (typed '''') Map.empty))"
    by (simp_all add: processValidation_def satisfies_constraints_def visit_def typed_def
        gateway_document_def string_defs blockedDomains_def)
  have 3: "(3::nat) = Suc 2"
    by simp
  show ?thesis
    using attach_any_number_of_times
        [OF f [of "''user@gmail.com''"] b [of "''user@gmail.com''"] tf tb, of 2]
      attach_any_number_of_times
        [OF f [of "''user@example.com''"] b [of "''user@example.com''"] tf tb, of 2]
      attach_any_number_of_times
        [OF f [of "''''"] b [of "''''"] tf tb, of 2] g x xs e es
    by (simp only: 3) simp
qed

subsection \<open>The interceptor and the transport handler\<close>

lemma capturing_none: "none_capturing ty regs \<Longrightarrow> capturing ty regs = []"
  by (induction regs) (auto simp add: none_capturing_def capturing_def)

lemma bubbling_member: "(ty, l, False) \<in> set regs \<Longrightarrow> l \<in> set (bubbling ty regs)"
  by (force simp add: bubbling_def)

lemma sib_form_transport_registers:
  "sib_form (doc (transport_registers y)) =
     map_option (\<lambda>form. addEventListener form (Submit, Transport, False)) (sib_form (doc y))"
  by (simp add: transport_registers_def)

text \<open>
  The form after the validator has attached, with or without a later registration of the
  transport handler: the interceptor, and after it what was registered later.
\<close>

lemma form_after_attach:
  assumes "sib_form (doc w) = Some f" and "third_party f"
      and "x = initEmailValidation w \<or> x = transport_registers (initEmailValidation w)"
  shows "\<exists>g. sib_form (doc x) = Some (f @ [(Submit, ValidateEmail, True)] @ g)
            \<and> (g = [] \<or> g = [(Submit, Transport, False)])
            \<and> ((Submit, Transport, False) \<in> set f
                   \<or> x = transport_registers (initEmailValidation w) \<longrightarrow>
                 (Submit, Transport, False) \<in> set (f @ g))"
proof -
  let ?i = "initEmailValidation w"
  have a: "sib_form (doc ?i) = Some (f @ [(Submit, ValidateEmail, True)])"
    using assms(1,2) by (simp add: sib_form_initEmailValidation third_party_filter)
  show ?thesis
  proof (cases "(Submit, Transport, False) \<in> set f")
    case True
    then have "sib_form (doc (transport_registers ?i)) = Some (f @ [(Submit, ValidateEmail, True)])"
      using a by (simp add: sib_form_transport_registers addEventListener_def)
    then have "sib_form (doc x) = Some (f @ [(Submit, ValidateEmail, True)] @ [])"
      using assms(3) a by auto
    then show ?thesis using True by auto
  next
    case False
    then have r: "sib_form (doc (transport_registers ?i))
                    = Some (f @ [(Submit, ValidateEmail, True)] @ [(Submit, Transport, False)])"
      using a by (simp add: sib_form_transport_registers addEventListener_def)
    show ?thesis
    proof (cases "x = transport_registers ?i")
      case True
      then show ?thesis using r by auto
    next
      case False
      then have "x = ?i" using assms(3) by blast
      then have "sib_form (doc x) = Some (f @ [(Submit, ValidateEmail, True)] @ [])"
        using a by simp
      then show ?thesis
        using False \<open>(Submit, Transport, False) \<notin> set f\<close> by blast
    qed
  qed
qed

lemma bubbling_append: "bubbling ty (a @ b) = bubbling ty a @ bubbling ty b"
  by (simp add: bubbling_def)

text \<open>
  Claim C7. On a form whose other listeners are the form library's, none of them a capturing
  submit listener, and with the transport handler registered before the validator
  attaches or after it: a submit event fired at the form runs the interceptor first and
  only the library's listeners after it. If the validation denies the address nothing
  runs after the interceptor, and the event leaves with its default prevented and its
  propagation stopped. If it accepts, the transport handler runs, after the interceptor,
  and the default action stands. The order is that of the DOM standard on the event's
  target, capturing listeners before the others.
\<close>

theorem interceptor_precedes_transport:
  assumes "sib_form (doc w) = Some f" and "third_party f" and "none_capturing Submit f"
      and "x = initEmailValidation w \<or> x = transport_registers (initEmailValidation w)"
  shows "\<exists>later e x'.
           dispatch_submit x = (ValidateEmail # later, e, x')
           \<and> list_all (\<lambda>l. l = Transport) later
           \<and> (\<not> fst (processValidation x) \<longrightarrow>
                later = [] \<and> defaultPrevented e \<and> immediateStopped e)
           \<and> (fst (processValidation x) \<longrightarrow>
                \<not> defaultPrevented e
                \<and> ((Submit, Transport, False) \<in> set f
                      \<or> x = transport_registers (initEmailValidation w) \<longrightarrow>
                    Transport \<in> set later))"
proof -
  from form_after_attach [OF assms(1,2,4)] obtain g where
    form: "sib_form (doc x) = Some (f @ [(Submit, ValidateEmail, True)] @ g)"
    and g: "g = [] \<or> g = [(Submit, Transport, False)]"
    and late: "(Submit, Transport, False) \<in> set f
                 \<or> x = transport_registers (initEmailValidation w) \<longrightarrow>
               (Submit, Transport, False) \<in> set (f @ g)"
    by blast
  have tg: "third_party g" and cg: "capturing Submit g = []"
    using g by (auto simp add: third_party_def capturing_def)
  have cf: "capturing Submit f = []"
    using assms(3) by (rule capturing_none)
  let ?later = "bubbling Submit f @ bubbling Submit g"
  have d: "dispatch_submit x =
             (if fst (processValidation x)
              then (ValidateEmail # ?later, fresh_event, snd (processValidation x))
              else ([ValidateEmail],
                    fresh_event\<lparr>defaultPrevented := True, immediateStopped := True\<rparr>,
                    snd (processValidation x)))"
    using submit_on_attached_form [OF form assms(2) tg] by (simp add: cf cg)
  have t: "list_all (\<lambda>l. l = Transport) ?later"
    using assms(2) tg by (simp add: transport_bubbling)
  have m: "(Submit, Transport, False) \<in> set f \<or> x = transport_registers (initEmailValidation w)
             \<Longrightarrow> Transport \<in> set ?later"
    using late bubbling_member [of Submit Transport "f @ g"] by (simp add: bubbling_append)
  show ?thesis
  proof (cases "fst (processValidation x)")
    case True
    then have "dispatch_submit x = (ValidateEmail # ?later, fresh_event, snd (processValidation x))"
      using d by simp
    moreover have "\<not> defaultPrevented fresh_event"
      by (simp add: fresh_event_def)
    ultimately show ?thesis
      using True t m by blast
  next
    case False
    then have "dispatch_submit x =
                 ([ValidateEmail],
                  fresh_event\<lparr>defaultPrevented := True, immediateStopped := True\<rparr>,
                  snd (processValidation x))"
      using d by simp
    moreover have "defaultPrevented (fresh_event\<lparr>defaultPrevented := True, immediateStopped := True\<rparr>)"
      and "immediateStopped (fresh_event\<lparr>defaultPrevented := True, immediateStopped := True\<rparr>)"
      by simp_all
    moreover have "list_all (\<lambda>l. l = Transport) []"
      by simp
    ultimately show ?thesis
      using False by blast
  qed
qed

text \<open>
  The gateway page, where the library has registered its handler before the validator
  attaches: a denied address, then an accepted one. Last, the handler registered after
  the validator on a form that had no listener.
\<close>

theorem interceptor_precedes_transport_witness:
  "fst (dispatch_submit (initEmailValidation (visit ''/'' (typed ''user@gmail.com'') Map.empty)))
     = [ValidateEmail]
   \<and> fst (dispatch_submit (initEmailValidation (visit ''/'' (typed ''user@example.com'') Map.empty)))
     = [ValidateEmail, Transport]
   \<and> fst (dispatch_submit (transport_registers (initEmailValidation
            (visit ''/'' ((typed ''user@example.com'')\<lparr>sib_form := Some []\<rparr>) Map.empty))))
     = [ValidateEmail, Transport]"
proof -
  let ?denied = "visit ''/'' (typed ''user@gmail.com'') Map.empty"
  let ?accepted = "visit ''/'' (typed ''user@example.com'') Map.empty"
  let ?late = "visit ''/'' ((typed ''user@example.com'')\<lparr>sib_form := Some []\<rparr>) Map.empty"
  have f: "sib_form (doc (visit ''/'' (typed v) Map.empty)) = Some [(Submit, Transport, False)]" for v
    by (simp add: visit_def typed_def gateway_document_def)
  have fl: "sib_form (doc ?late) = Some []"
    by (simp add: visit_def)
  have t: "third_party [(Submit, Transport, False)]" and tl: "third_party []"
    by (simp_all add: third_party_def)
  have n: "none_capturing Submit [(Submit, Transport, False)]" and nl: "none_capturing Submit []"
    by (simp_all add: none_capturing_def)
  have vd: "\<not> fst (processValidation (initEmailValidation ?denied))"
    by (simp add: fst_processValidation in_value_initEmailValidation visit_def typed_def
        string_defs blockedDomains_def)
  have va: "fst (processValidation (initEmailValidation ?accepted))"
    by (simp add: fst_processValidation in_value_initEmailValidation visit_def typed_def
        string_defs blockedDomains_def)
  have vl: "fst (processValidation (transport_registers (initEmailValidation ?late)))"
    by (simp add: fst_processValidation transport_registers_def in_value_initEmailValidation
        visit_def typed_def string_defs blockedDomains_def)
  have m: "(Submit, Transport, False) \<in> set [(Submit, Transport, False)]"
    by simp
  have 1: "fst (dispatch_submit (initEmailValidation ?denied)) = [ValidateEmail]"
    using interceptor_precedes_transport
      [OF f [of "''user@gmail.com''"] t n, of "initEmailValidation ?denied"] vd
    by auto
  obtain later e x' where
    a: "dispatch_submit (initEmailValidation ?accepted) = (ValidateEmail # later, e, x')"
      "list_all (\<lambda>l. l = Transport) later" "Transport \<in> set later"
    using interceptor_precedes_transport
      [OF f [of "''user@example.com''"] t n, of "initEmailValidation ?accepted"] va m
    by blast
  obtain later2 e2 x2 where
    b: "dispatch_submit (transport_registers (initEmailValidation ?late))
          = (ValidateEmail # later2, e2, x2)"
      "list_all (\<lambda>l. l = Transport) later2" "Transport \<in> set later2"
    using interceptor_precedes_transport
      [OF fl tl nl, of "transport_registers (initEmailValidation ?late)"] vl
    by blast
  have 2: "fst (dispatch_submit (initEmailValidation ?accepted)) = [ValidateEmail, Transport]"
    by (simp add: initEmailValidation_def addEventListener_def removeEventListener_def
        visit_def typed_def gateway_document_def dispatch_submit_def at_target_def
        capturing_def bubbling_def fresh_event_def validateEmail_def processValidation_def
        string_defs blockedDomains_def Let_def)
  have 3: "fst (dispatch_submit (transport_registers (initEmailValidation ?late)))
             = [ValidateEmail, Transport]"
    by (simp add: initEmailValidation_def transport_registers_def addEventListener_def
        removeEventListener_def visit_def typed_def gateway_document_def dispatch_submit_def
        at_target_def capturing_def bubbling_def fresh_event_def validateEmail_def
        processValidation_def string_defs blockedDomains_def Let_def)
  show ?thesis
    using 1 2 3 a b by simp
qed

end
